theory Spec2Isabelle
  imports Main "HOL-Library.Word" "HOL-Library.Sublist"
begin

unbundle bit_operations_syntax

section \<open>Common data\<close>

text \<open>
  A \<^verbatim>\<open>Uint8Array\<close> is a list of 8-bit words. A JavaScript string is a \<^typ>\<open>string\<close>, a
  sequence of code units below 256: the strings this program builds (base64, PEM, JSON of
  ASCII members, domain names) are ASCII, and a code unit from 128 to 255 is the Latin-1
  character of that number.

  Every \<^verbatim>\<open>throw\<close> of the source is a constructor of \<open>error\<close>; the fields are the
  values interpolated into the message. \<open>Thrown\<close> is an exception raised by the platform
  (a failed \<^verbatim>\<open>fetch\<close>, a failing WebCrypto call, a failing \<^verbatim>\<open>JSON.parse\<close>).
\<close>

type_synonym byte = "8 word"

datatype error =
    Thrown string
  | UndefinedError
  | InvalidCharacterError
  | RangeError
  | InvalidDerNoSeq
  | InvalidDerLength
  | InvalidDerLengthBytes
  | InvalidDerNoInteger
  | AcmeRequestFailed nat string string
  | AcmeAuthorizationInvalid string
  | AcmeAuthorizationTimeout string
  | AcmeAuthorizationPollExceeded string
  | AcmeOrderInvalid string
  | AcmeOrderTimeout string
  | AcmeOrderPollExceeded string
  | AcmeMissingNonce
  | AcmeChallengeNotFound
  | AcmeNewOrderMissingLocation
  | AcmeMissingCertificateUrl
  | DnsCreateFailed nat string
  | DnsDeleteFailed nat string
  | MissingCfApiToken
  | MissingCaProviders
  | MissingZoneMap
  | AllProvidersFailed "string list"

text \<open>
  A \<^verbatim>\<open>Response\<close>: the status, the headers, and what \<^verbatim>\<open>res.text()\<close> gives
  (\<open>None\<close> when reading the body throws). \<^verbatim>\<open>res.ok\<close> is a status in 200..299.
\<close>

record Response =
  status :: nat
  headers :: "(string \<times> string) list"
  body :: "string option"

definition ok :: "Response \<Rightarrow> bool" where
  "ok res = (200 \<le> status res \<and> status res \<le> 299)"

section \<open>HTTP transport with retry (client.ts, fetchWithRetry)\<close>

definition transient :: "nat set" where
  "transient = {408, 425, 429, 500, 502, 503, 504, 522, 524, 525}"

definition backoffMs :: "(nat \<Rightarrow> nat) \<Rightarrow> nat \<Rightarrow> nat" where
  "backoffMs jitter attempt =
     (let table = [250, 1000, 2500, 4000, 6000, 9000, 12000];
          base = table ! (min attempt (length table - 1))
      in base + jitter attempt)"

text \<open>
  \<open>fetch i\<close> is the outcome of the \<open>i\<close>-th call of \<^verbatim>\<open>fetch(url, init)\<close>: a response, or
  the exception it throws. \<open>jitter i\<close> is the value of
  \<^verbatim>\<open>Math.floor(Math.random() * 200)\<close> drawn at attempt \<open>i\<close>. The loop returns the result
  together with the list of the sleeps it made, in order.
\<close>

function fetchWithRetry_loop ::
  "(nat \<Rightarrow> error + Response) \<Rightarrow> (nat \<Rightarrow> nat) \<Rightarrow> int \<Rightarrow> int \<Rightarrow> error option \<Rightarrow> nat list
   \<Rightarrow> (error + Response) \<times> nat list" where
  "fetchWithRetry_loop fetch jitter retries attempt lastError sleeps =
     (if attempt \<le> retries then
        (case fetch (nat attempt) of
           Inr res \<Rightarrow>
             if status res \<notin> transient \<or> attempt = retries then (Inr res, sleeps)
             else fetchWithRetry_loop fetch jitter retries (attempt + 1) lastError
                    (sleeps @ [backoffMs jitter (nat attempt)])
         | Inl e \<Rightarrow>
             if attempt = retries then (Inl e, sleeps)
             else fetchWithRetry_loop fetch jitter retries (attempt + 1) (Some e)
                    (sleeps @ [backoffMs jitter (nat attempt)]))
      else (Inl (case lastError of Some e \<Rightarrow> e | None \<Rightarrow> UndefinedError), sleeps))"
  by pat_completeness auto
termination
  by (relation "measure (\<lambda>(fetch, jitter, retries, attempt, lastError, sleeps).
                  nat (retries + 1 - attempt))") auto

declare fetchWithRetry_loop.simps [simp del]

definition fetchWithRetry ::
  "(nat \<Rightarrow> error + Response) \<Rightarrow> (nat \<Rightarrow> nat) \<Rightarrow> int \<Rightarrow> (error + Response) \<times> nat list" where
  "fetchWithRetry fetch jitter retries = fetchWithRetry_loop fetch jitter retries 0 None []"

section \<open>Encoding primitives (utils/base64url.ts)\<close>

text \<open>
  \<^verbatim>\<open>btoa\<close> and \<^verbatim>\<open>atob\<close> are platform functions; they are modelled after their definition
  (RFC 4648 base64 with padding, and the forgiving base64 decoder: ASCII whitespace is
  removed, one or two trailing \<open>=\<close> are removed when the length is a multiple of four, a
  length of 1 modulo 4 or a character outside the alphabet fails, left-over bits are
  discarded). The binary string that the source builds with \<^verbatim>\<open>String.fromCharCode\<close>
  is the byte list itself.
\<close>

definition b64_char :: "nat \<Rightarrow> char" where
  "b64_char i =
     (if i < 26 then char_of (65 + i)
      else if i < 52 then char_of (71 + i)
      else if i < 62 then char_of (i - 4)
      else if i = 62 then CHR ''+'' else CHR ''/'')"

definition b64_index :: "char \<Rightarrow> nat option" where
  "b64_index c =
     (let n = (of_char c :: nat)
      in if 65 \<le> n \<and> n \<le> 90 then Some (n - 65)
         else if 97 \<le> n \<and> n \<le> 122 then Some (n - 71)
         else if 48 \<le> n \<and> n \<le> 57 then Some (n + 4)
         else if c = CHR ''+'' then Some 62
         else if c = CHR ''/'' then Some 63
         else None)"

fun btoa :: "byte list \<Rightarrow> string" where
  "btoa [] = []"
| "btoa [a] =
     [b64_char (unat a div 4), b64_char (unat a mod 4 * 16), CHR ''='', CHR ''='']"
| "btoa [a, b] =
     [b64_char (unat a div 4), b64_char (unat a mod 4 * 16 + unat b div 16),
      b64_char (unat b mod 16 * 4), CHR ''='']"
| "btoa (a # b # c # rest) =
     [b64_char (unat a div 4), b64_char (unat a mod 4 * 16 + unat b div 16),
      b64_char (unat b mod 16 * 4 + unat c div 64), b64_char (unat c mod 64)] @ btoa rest"

definition ascii_whitespace :: "char set" where
  "ascii_whitespace = {CHR 0x09, CHR 0x0A, CHR 0x0C, CHR 0x0D, CHR '' ''}"

fun strip_padding_rev :: "string \<Rightarrow> string" where
  "strip_padding_rev (x # y # r) =
     (if x = CHR ''='' then (if y = CHR ''='' then r else y # r) else x # y # r)"
| "strip_padding_rev [x] = (if x = CHR ''='' then [] else [x])"
| "strip_padding_rev [] = []"

fun decode_sextets :: "nat list \<Rightarrow> byte list" where
  "decode_sextets (i1 # i2 # i3 # i4 # rest) =
     [of_nat (i1 * 4 + i2 div 16), of_nat (i2 mod 16 * 16 + i3 div 4),
      of_nat (i3 mod 4 * 64 + i4)] @ decode_sextets rest"
| "decode_sextets [i1, i2, i3] =
     [of_nat (i1 * 4 + i2 div 16), of_nat (i2 mod 16 * 16 + i3 div 4)]"
| "decode_sextets [i1, i2] = [of_nat (i1 * 4 + i2 div 16)]"
| "decode_sextets [i1] = []"
| "decode_sextets [] = []"

definition atob :: "string \<Rightarrow> error + byte list" where
  "atob s =
     (let d = filter (\<lambda>c. c \<notin> ascii_whitespace) s;
          d' = (if length d mod 4 = 0 then rev (strip_padding_rev (rev d)) else d)
      in if length d' mod 4 = 1 then Inl InvalidCharacterError
         else (case those (map b64_index d') of
                 None \<Rightarrow> Inl InvalidCharacterError
               | Some is \<Rightarrow> Inr (decode_sextets is)))"

definition strip_trailing_eq :: "string \<Rightarrow> string" where
  "strip_trailing_eq s = rev (dropWhile (\<lambda>c. c = CHR ''='') (rev s))"

definition replace_char :: "char \<Rightarrow> char \<Rightarrow> string \<Rightarrow> string" where
  "replace_char a b s = map (\<lambda>c. if c = a then b else c) s"

definition base64UrlEncode :: "byte list \<Rightarrow> string" where
  "base64UrlEncode bytes =
     strip_trailing_eq (replace_char CHR ''/'' CHR ''_'' (replace_char CHR ''+'' CHR ''-'' (btoa bytes)))"

definition js_whitespace :: "char set" where
  "js_whitespace = {CHR 0x09, CHR 0x0A, CHR 0x0B, CHR 0x0C, CHR 0x0D, CHR '' '', CHR 0xA0}"

definition trim :: "string \<Rightarrow> string" where
  "trim s = rev (dropWhile (\<lambda>c. c \<in> js_whitespace) (rev (dropWhile (\<lambda>c. c \<in> js_whitespace) s)))"

definition base64UrlDecodeToBytes :: "string \<Rightarrow> error + byte list" where
  "base64UrlDecodeToBytes v =
     (let trimmed = strip_trailing_eq (trim v);
          normalized = replace_char CHR ''_'' CHR ''/'' (replace_char CHR ''-'' CHR ''+'' trimmed);
          b64 = normalized @ drop ((length normalized + 3) mod 4) ''===''
      in atob b64)"

text \<open>
  \<^verbatim>\<open>new TextEncoder().encode(text)\<close> writes UTF-8: one byte for a code unit below 128, and the
  two bytes \<open>110000xx 10xxxxxx\<close> for a code unit from 128 to 255.
\<close>

definition utf8_code_unit :: "char \<Rightarrow> byte list" where
  "utf8_code_unit c =
     (if (of_char c :: nat) < 128 then [of_char c]
      else [of_nat (192 + (of_char c :: nat) div 64), of_nat (128 + (of_char c :: nat) mod 64)])"

definition utf8ToBytes :: "string \<Rightarrow> byte list" where
  "utf8ToBytes text = concat (map utf8_code_unit text)"

section \<open>DER to JOSE signature conversion (utils/jose.ts)\<close>

text \<open>
  \<open>at bytes i\<close> is \<^verbatim>\<open>bytes[i]\<close>: \<open>None\<close> is \<^verbatim>\<open>undefined\<close>. Offsets are integers, since
  a length read from four length bytes can be negative (the accumulator of
  \<^verbatim>\<open>readDerLength\<close> is a 32-bit signed integer: \<^verbatim>\<open>(len << 8) | b\<close>).
\<close>

definition at :: "byte list \<Rightarrow> int \<Rightarrow> byte option" where
  "at bytes i = (if 0 \<le> i \<and> i < int (length bytes) then Some (bytes ! nat i) else None)"

text \<open>\<^verbatim>\<open>TypedArray.prototype.slice(start, end)\<close>, with its clamping and negative indices.\<close>

definition slice :: "'a list \<Rightarrow> int \<Rightarrow> int \<Rightarrow> 'a list" where
  "slice xs start end' =
     (let len = int (length xs);
          k = (if start < 0 then max (len + start) 0 else min start len);
          final = (if end' < 0 then max (len + end') 0 else min end' len);
          count = max (final - k) 0
      in take (nat count) (drop (nat k) xs))"

text \<open>\<^verbatim>\<open>out.set(src, offset)\<close> on a typed array: a \<^verbatim>\<open>RangeError\<close> when \<open>src\<close> does not fit.\<close>

definition typed_set :: "byte list \<Rightarrow> byte list \<Rightarrow> nat \<Rightarrow> error + byte list" where
  "typed_set out src offset =
     (if offset + length src > length out then Inl RangeError
      else Inr (take offset out @ src @ drop (offset + length src) out))"

fun readDerLength_loop :: "byte list \<Rightarrow> nat \<Rightarrow> int \<Rightarrow> 32 word \<Rightarrow> 32 word \<times> int" where
  "readDerLength_loop bytes 0 offset len = (len, offset)"
| "readDerLength_loop bytes (Suc n) offset len =
     readDerLength_loop bytes n (offset + 1)
       (push_bit 8 len OR (case at bytes offset of Some b \<Rightarrow> ucast b | None \<Rightarrow> 0))"

definition readDerLength :: "byte list \<Rightarrow> int \<Rightarrow> error + (int \<times> int)" where
  "readDerLength bytes offset =
     (case at bytes offset of
        None \<Rightarrow> Inl InvalidDerLength
      | Some first \<Rightarrow>
          if first AND 0x80 = 0 then Inr (uint first, offset + 1)
          else let numBytes = unat (first AND 0x7f)
               in if numBytes = 0 \<or> numBytes > 4 then Inl InvalidDerLengthBytes
                  else (case readDerLength_loop bytes numBytes (offset + 1) 0 of
                          (len, nextOffset) \<Rightarrow> Inr (sint len, nextOffset)))"

fun stripLeadingZeros :: "byte list \<Rightarrow> byte list" where
  "stripLeadingZeros [] = []"
| "stripLeadingZeros (b # bs) = (if b = 0 then stripLeadingZeros bs else b # bs)"

definition readDerInteger :: "byte list \<Rightarrow> int \<Rightarrow> error + (byte list \<times> int)" where
  "readDerInteger bytes offset =
     (if at bytes offset \<noteq> Some 0x02 then Inl InvalidDerNoInteger
      else (case readDerLength bytes (offset + 1) of
              Inl e \<Rightarrow> Inl e
            | Inr (len, offset') \<Rightarrow>
                Inr (stripLeadingZeros (slice bytes offset' (offset' + len)), offset' + len)))"

definition leftPad :: "byte list \<Rightarrow> nat \<Rightarrow> byte list" where
  "leftPad bytes len =
     (if length bytes = len then bytes
      else if length bytes > len
           then slice bytes (int (length bytes) - int len) (int (length bytes))
           else replicate (len - length bytes) 0 @ bytes)"

text \<open>
  The source also computes \<^verbatim>\<open>seqEnd\<close> from the SEQUENCE length and compares it with the
  final offset, in an \<^verbatim>\<open>if\<close> whose body is empty: the SEQUENCE length is read and not used.
\<close>

definition derEcdsaSigToJose :: "byte list \<Rightarrow> nat \<Rightarrow> error + byte list" where
  "derEcdsaSigToJose bytes keySizeBytes =
     (if at bytes 0 \<noteq> Some 0x30 then Inl InvalidDerNoSeq
      else (case readDerLength bytes 1 of
              Inl e \<Rightarrow> Inl e
            | Inr (seqLen, offset) \<Rightarrow>
                (case readDerInteger bytes offset of
                   Inl e \<Rightarrow> Inl e
                 | Inr (r, offset') \<Rightarrow>
                     (case readDerInteger bytes offset' of
                        Inl e \<Rightarrow> Inl e
                      | Inr (s, offset'') \<Rightarrow>
                          (case typed_set (replicate (keySizeBytes * 2) 0)
                                  (leftPad r keySizeBytes) 0 of
                             Inl e \<Rightarrow> Inl e
                           | Inr out \<Rightarrow> typed_set out (leftPad s keySizeBytes) keySizeBytes)))))"

section \<open>JWS ES256 signing (utils/webcrypto.ts, signEs256Jws)\<close>

text \<open>
  \<^verbatim>\<open>crypto.subtle.sign\<close> and \<^verbatim>\<open>JSON.stringify\<close> are platform functions and are parameters:
  \<open>subtle_sign key input\<close> is the signature the platform returns for the signing input, or
  the exception it throws.
\<close>

record Jws =
  protected :: string
  payload :: string
  signature :: string

datatype 'j jws_payload = PayloadString string | PayloadObject 'j

definition signEs256Jws ::
  "('k \<Rightarrow> byte list \<Rightarrow> error + byte list) \<Rightarrow> ('j \<Rightarrow> string) \<Rightarrow> 'k \<Rightarrow> 'j \<Rightarrow> 'j jws_payload
   \<Rightarrow> error + Jws" where
  "signEs256Jws subtle_sign JSON_stringify privateKey protectedHeader pl =
     (let protectedB64 = base64UrlEncode (utf8ToBytes (JSON_stringify protectedHeader));
          payloadB64 =
            (case pl of
               PayloadString s \<Rightarrow> base64UrlEncode (utf8ToBytes s)
             | PayloadObject obj \<Rightarrow> base64UrlEncode (utf8ToBytes (JSON_stringify obj)));
          signingInput = utf8ToBytes (protectedB64 @ ''.'' @ payloadB64)
      in case subtle_sign privateKey signingInput of
           Inl e \<Rightarrow> Inl e
         | Inr derSig \<Rightarrow>
             (case derEcdsaSigToJose derSig 32 of
                Inl e \<Rightarrow> Inl e
              | Inr joseSigBytes \<Rightarrow>
                  Inr \<lparr>protected = protectedB64, payload = payloadB64,
                       signature = base64UrlEncode joseSigBytes\<rparr>))"

section \<open>PEM and DER (utils/pem.ts)\<close>

text \<open>\<^verbatim>\<open>s.split("\n")\<close>, \<^verbatim>\<open>lines.join(sep)\<close> and the chunks of \<^verbatim>\<open>s.match(/.{1,64}/g) ?? []\<close>
  (on base64 text, which has no line terminator).\<close>

fun split_on :: "char \<Rightarrow> string \<Rightarrow> string list" where
  "split_on sep [] = [[]]"
| "split_on sep (c # cs) =
     (if c = sep then [] # split_on sep cs
      else (case split_on sep cs of [] \<Rightarrow> [[c]] | l # ls \<Rightarrow> (c # l) # ls))"

fun join :: "string \<Rightarrow> string list \<Rightarrow> string" where
  "join sep [] = []"
| "join sep [x] = x"
| "join sep (x # y # ys) = x @ sep @ join sep (y # ys)"

function chunks64 :: "string \<Rightarrow> string list" where
  "chunks64 s = (if s = [] then [] else take 64 s # chunks64 (drop 64 s))"
  by pat_completeness auto
termination
  by (relation "measure length") auto

declare chunks64.simps [simp del]

definition LF :: char where
  "LF = CHR 0x0A"

definition CR :: char where
  "CR = CHR 0x0D"

definition pemToDer :: "string \<Rightarrow> error + byte list" where
  "pemToDer pem =
     atob (concat (filter (\<lambda>l. \<not> prefix ''-----'' l)
                     (split_on LF (filter (\<lambda>c. c \<noteq> CR) pem))))"

definition derToPem :: "byte list \<Rightarrow> string \<Rightarrow> string" where
  "derToPem der label =
     ''-----BEGIN '' @ label @ ''-----'' @ [LF] @ join [LF] (chunks64 (btoa der)) @ [LF]
       @ ''-----END '' @ label @ ''-----'' @ [LF]"

text \<open>\<^verbatim>\<open>extractFirstCertificatePem\<close> returns the text from the first BEGIN line to the
  first following END line, without the newline after it; this is such a block.\<close>

definition example_block :: string where
  "example_block = ''-----BEGIN CERTIFICATE-----'' @ [LF] @ ''AAAA'' @ [LF]
                     @ ''-----END CERTIFICATE-----''"

section \<open>JWK thumbprint and the DNS-01 TXT value (utils/jose.ts, client.ts)\<close>

text \<open>
  \<^verbatim>\<open>JSON.stringify\<close> of a string (\<open>json_quote\<close>) and of an object whose members are strings or
  \<^verbatim>\<open>undefined\<close> (an undefined member is left out). A JavaScript object is the list of its own
  properties in insertion order; \<open>get_prop obj k\<close> is \<^verbatim>\<open>obj.k\<close>, \<open>None\<close> for \<^verbatim>\<open>undefined\<close>.
  \<^verbatim>\<open>crypto.subtle.digest("SHA-256", _)\<close> is the parameter \<open>sha256\<close>.
\<close>

definition DQ :: char where
  "DQ = CHR 0x22"

definition BACKSLASH :: char where
  "BACKSLASH = CHR 0x5C"

definition hex_digit :: "nat \<Rightarrow> char" where
  "hex_digit n = ''0123456789abcdef'' ! (n mod 16)"

definition json_escape_char :: "char \<Rightarrow> string" where
  "json_escape_char c =
     (if c = CHR 0x08 then [BACKSLASH, CHR ''b'']
      else if c = CHR 0x09 then [BACKSLASH, CHR ''t'']
      else if c = CHR 0x0A then [BACKSLASH, CHR ''n'']
      else if c = CHR 0x0C then [BACKSLASH, CHR ''f'']
      else if c = CHR 0x0D then [BACKSLASH, CHR ''r'']
      else if c = DQ then [BACKSLASH, DQ]
      else if c = BACKSLASH then [BACKSLASH, BACKSLASH]
      else if (of_char c :: nat) < 0x20
           then [BACKSLASH, CHR ''u'', CHR ''0'', CHR ''0'',
                 hex_digit (of_char c div 16), hex_digit (of_char c)]
      else [c])"

definition json_quote :: "string \<Rightarrow> string" where
  "json_quote s = [DQ] @ concat (map json_escape_char s) @ [DQ]"

type_synonym jsobject = "(string \<times> string) list"

definition get_prop :: "jsobject \<Rightarrow> string \<Rightarrow> string option" where
  "get_prop obj k = map_of obj k"

definition JSON_stringify_object :: "(string \<times> string option) list \<Rightarrow> string" where
  "JSON_stringify_object members =
     ''{'' @ join '','' (concat (map (\<lambda>(k, v). case v of None \<Rightarrow> []
                                        | Some s \<Rightarrow> [json_quote k @ '':'' @ json_quote s]) members))
       @ ''}''"

definition canonicalizeJwk :: "jsobject \<Rightarrow> (string \<times> string option) list" where
  "canonicalizeJwk jwk =
     [(''crv'', get_prop jwk ''crv''), (''kty'', get_prop jwk ''kty''),
      (''x'', get_prop jwk ''x''), (''y'', get_prop jwk ''y'')]"

definition jwkThumbprintBase64Url :: "(byte list \<Rightarrow> byte list) \<Rightarrow> jsobject \<Rightarrow> string" where
  "jwkThumbprintBase64Url sha256 jwk =
     (let canonical = canonicalizeJwk jwk;
          json = JSON_stringify_object canonical;
          digest = sha256 (utf8ToBytes json)
      in base64UrlEncode digest)"

definition computeDns01TxtValue :: "(byte list \<Rightarrow> byte list) \<Rightarrow> jsobject \<Rightarrow> string \<Rightarrow> string" where
  "computeDns01TxtValue sha256 accountJwk token =
     (let thumbprint = jwkThumbprintBase64Url sha256 accountJwk;
          keyAuth = token @ ''.'' @ thumbprint;
          bytes = utf8ToBytes keyAuth;
          digest = sha256 bytes
      in base64UrlEncode digest)"

section \<open>The signed request (client.ts, signedRequest)\<close>

text \<open>
  The client keeps the last replay nonce. \<open>newNonce\<close> is the outcome of \<^verbatim>\<open>this.newNonce()\<close> (the
  directory fetch and the HEAD request), \<open>sign_jws nonce\<close> the outcome of
  \<^verbatim>\<open>importEcPrivateKeyFromJwk\<close> followed by \<^verbatim>\<open>signEs256Jws\<close> for the protected header with that
  nonce, \<open>fetch\<close> and \<open>jitter\<close> are those of \<open>fetchWithRetry\<close> (3 retries, the default), and
  \<open>JSON_parse\<close> is \<^verbatim>\<open>res.json()\<close> on the body text. Header names are kept in lower case, as
  \<^verbatim>\<open>Headers.get\<close> compares them.
\<close>

record AcmeClient =
  nonce :: "string option"

datatype 'b body_value = BodyText string | BodyUndefined | BodyJson 'b

record 'b SignedResponse =
  sr_body :: "'b body_value"
  sr_headers :: "(string \<times> string) list"
  sr_location :: "string option"

definition header_get :: "Response \<Rightarrow> string \<Rightarrow> string option" where
  "header_get res name = map_of (headers res) name"

definition ensureNonce :: "(error + string) \<Rightarrow> AcmeClient \<Rightarrow> (error + string) \<times> AcmeClient" where
  "ensureNonce newNonce client =
     (case nonce client of
        Some n \<Rightarrow> (Inr n, client)
      | None \<Rightarrow>
          (case newNonce of
             Inl e \<Rightarrow> (Inl e, client)
           | Inr n \<Rightarrow> if n = [] then (Inl AcmeMissingNonce, client)
                      else (Inr n, client\<lparr>nonce := Some n\<rparr>)))"

definition captureNonce :: "Response \<Rightarrow> AcmeClient \<Rightarrow> AcmeClient" where
  "captureNonce res client =
     (case header_get res ''replay-nonce'' of
        Some n \<Rightarrow> if n \<noteq> [] then client\<lparr>nonce := Some n\<rparr> else client
      | None \<Rightarrow> client)"

definition safeReadText :: "Response \<Rightarrow> string" where
  "safeReadText res =
     (case body res of
        Some t \<Rightarrow> if length t > 300 then take 300 t else t
      | None \<Rightarrow> [])"

definition signedRequest ::
  "(error + string) \<Rightarrow> (string \<Rightarrow> error + Jws) \<Rightarrow> (nat \<Rightarrow> error + Response) \<Rightarrow> (nat \<Rightarrow> nat)
   \<Rightarrow> (string \<Rightarrow> error + 'b) \<Rightarrow> AcmeClient \<Rightarrow> string
   \<Rightarrow> (error + 'b SignedResponse) \<times> AcmeClient" where
  "signedRequest newNonce sign_jws fetch jitter JSON_parse client url =
     (case ensureNonce newNonce client of
        (Inl e, client1) \<Rightarrow> (Inl e, client1)
      | (Inr n, client1) \<Rightarrow>
          (case sign_jws n of
             Inl e \<Rightarrow> (Inl e, client1)
           | Inr jws \<Rightarrow>
               (case fst (fetchWithRetry fetch jitter 3) of
                  Inl e \<Rightarrow> (Inl e, client1)
                | Inr res \<Rightarrow>
                    let client2 = captureNonce res client1;
                        location = header_get res ''location'';
                        contentType = (case header_get res ''content-type'' of
                                         Some t \<Rightarrow> t | None \<Rightarrow> [])
                    in if \<not> ok res
                       then (Inl (AcmeRequestFailed (status res) url
                                    (take 2000 (safeReadText res))), client2)
                       else if sublist ''application/pem-certificate-chain'' contentType
                       then (case body res of
                               None \<Rightarrow> (Inl (Thrown ''text''), client2)
                             | Some t \<Rightarrow>
                                 (Inr \<lparr>sr_body = BodyText t, sr_headers = headers res,
                                       sr_location = location\<rparr>, client2))
                       else if status res = 204
                       then (Inr \<lparr>sr_body = BodyUndefined, sr_headers = headers res,
                                   sr_location = location\<rparr>, client2)
                       else (case body res of
                               None \<Rightarrow> (Inl (Thrown ''json''), client2)
                             | Some t \<Rightarrow>
                                 (case JSON_parse t of
                                    Inl e \<Rightarrow> (Inl e, client2)
                                  | Inr json \<Rightarrow>
                                      (Inr \<lparr>sr_body = BodyJson json, sr_headers = headers res,
                                            sr_location = location\<rparr>, client2))))))"

section \<open>Polling (client.ts, pollAuthorizationValid and pollOrderValid)\<close>

text \<open>
  \<open>getAuthorization i\<close> is the outcome of the \<open>i\<close>-th POST-as-GET of the authorization
  (\<open>getOrder i\<close> of the order): the resource, or the error of \<open>signedRequest\<close>. \<open>now i\<close> is the
  reading of \<^verbatim>\<open>Date.now()\<close> in iteration \<open>i\<close> and \<open>start\<close> the reading on entry. The loops
  return the result, the number of requests made, and the sleeps in order.
  \<^verbatim>\<open>Math.floor(delayMs * 1.7)\<close> is \<open>delayMs * 17 div 10\<close>; on the values the loop reaches (2000,
  3400, 5780, 9826) the floating-point product gives the same integer.
\<close>

datatype authz_status =
  AuthzPending | AuthzValid | AuthzInvalid | AuthzDeactivated | AuthzExpired | AuthzRevoked

datatype order_status = OrderPending | OrderReady | OrderProcessing | OrderValid | OrderInvalid

record AcmeChallenge =
  ch_type :: string
  ch_url :: string
  ch_status :: string
  ch_token :: string

record AcmeAuthorization =
  identifier_value :: string
  authz_state :: authz_status
  challenges :: "AcmeChallenge list"

record AcmeOrder =
  order_state :: order_status
  authorizations :: "string list"
  finalize :: string
  certificate :: "string option"

definition maxAttempts :: nat where
  "maxAttempts = 12"

function pollAuthorizationValid_loop ::
  "(nat \<Rightarrow> error + AcmeAuthorization) \<Rightarrow> (nat \<Rightarrow> int) \<Rightarrow> int \<Rightarrow> string \<Rightarrow> int
   \<Rightarrow> nat \<Rightarrow> nat \<Rightarrow> nat \<Rightarrow> nat list \<Rightarrow> (error + unit) \<times> nat \<times> nat list" where
  "pollAuthorizationValid_loop getAuthorization now start authorizationUrl timeoutMs
     i attempts delayMs sleeps =
     (case getAuthorization i of
        Inl e \<Rightarrow> (Inl e, i + 1, sleeps)
      | Inr authz \<Rightarrow>
          if authz_state authz = AuthzValid then (Inr (), i + 1, sleeps)
          else if authz_state authz = AuthzInvalid
          then (Inl (AcmeAuthorizationInvalid authorizationUrl), i + 1, sleeps)
          else if now i - start > timeoutMs
          then (Inl (AcmeAuthorizationTimeout authorizationUrl), i + 1, sleeps)
          else if attempts \<ge> maxAttempts
          then (Inl (AcmeAuthorizationPollExceeded authorizationUrl), i + 1, sleeps)
          else pollAuthorizationValid_loop getAuthorization now start authorizationUrl timeoutMs
                 (i + 1) (attempts + 1) (min (delayMs * 17 div 10) 10000) (sleeps @ [delayMs]))"
  by pat_completeness auto
termination
  by (relation "measure (\<lambda>(g, n, s, u, t, i, attempts, d, sl). maxAttempts + 1 - attempts)") auto

declare pollAuthorizationValid_loop.simps [simp del]

definition pollAuthorizationValid ::
  "(nat \<Rightarrow> error + AcmeAuthorization) \<Rightarrow> (nat \<Rightarrow> int) \<Rightarrow> int \<Rightarrow> string \<Rightarrow> int
   \<Rightarrow> (error + unit) \<times> nat \<times> nat list" where
  "pollAuthorizationValid getAuthorization now start authorizationUrl timeoutMs =
     pollAuthorizationValid_loop getAuthorization now start authorizationUrl timeoutMs 0 0 2000 []"

function pollOrderValid_loop ::
  "(nat \<Rightarrow> error + AcmeOrder) \<Rightarrow> (nat \<Rightarrow> int) \<Rightarrow> int \<Rightarrow> string \<Rightarrow> int
   \<Rightarrow> nat \<Rightarrow> nat \<Rightarrow> nat \<Rightarrow> nat list \<Rightarrow> (error + AcmeOrder) \<times> nat \<times> nat list" where
  "pollOrderValid_loop getOrder now start orderUrl timeoutMs i attempts delayMs sleeps =
     (case getOrder i of
        Inl e \<Rightarrow> (Inl e, i + 1, sleeps)
      | Inr order \<Rightarrow>
          if order_state order = OrderValid then (Inr order, i + 1, sleeps)
          else if order_state order = OrderInvalid
          then (Inl (AcmeOrderInvalid orderUrl), i + 1, sleeps)
          else if now i - start > timeoutMs
          then (Inl (AcmeOrderTimeout orderUrl), i + 1, sleeps)
          else if attempts \<ge> maxAttempts
          then (Inl (AcmeOrderPollExceeded orderUrl), i + 1, sleeps)
          else pollOrderValid_loop getOrder now start orderUrl timeoutMs
                 (i + 1) (attempts + 1) (min (delayMs * 17 div 10) 10000) (sleeps @ [delayMs]))"
  by pat_completeness auto
termination
  by (relation "measure (\<lambda>(g, n, s, u, t, i, attempts, d, sl). maxAttempts + 1 - attempts)") auto

declare pollOrderValid_loop.simps [simp del]

definition pollOrderValid ::
  "(nat \<Rightarrow> error + AcmeOrder) \<Rightarrow> (nat \<Rightarrow> int) \<Rightarrow> int \<Rightarrow> string \<Rightarrow> int
   \<Rightarrow> (error + AcmeOrder) \<times> nat \<times> nat list" where
  "pollOrderValid getOrder now start orderUrl timeoutMs =
     pollOrderValid_loop getOrder now start orderUrl timeoutMs 0 0 2000 []"

section \<open>Certificate cache and renewal decision (index.ts, certStore.ts, env.ts)\<close>

text \<open>
  The platform is a parameter: \<open>kv_get\<close> is \<^verbatim>\<open>CERTS_KV.get\<close> (\<open>None\<close> for \<^verbatim>\<open>null\<close>), \<open>JSON_parse\<close> is
  \<^verbatim>\<open>JSON.parse\<close> (\<open>None\<close> when it throws), \<open>truthy v\<close> is the truth value of the parsed value,
  \<open>notAfterTime v\<close> is \<^verbatim>\<open>new Date(v.notAfterIso).getTime()\<close> when that is finite, \<open>now\<close> is the
  clock in milliseconds, and \<open>obtained\<close> is the outcome of \<open>obtainCertificateWithFallback\<close>.
  \<open>parseInt s\<close> is \<^verbatim>\<open>Number.parseInt(s, 10)\<close>: \<open>Some n\<close> when that is the finite number \<open>n\<close> (an
  integer), \<open>None\<close> when it is NaN or infinite. Times and day counts are integers, and the
  floor of the quotient by 86400000 is integer division. \<^verbatim>\<open>toLowerCase\<close> on code units below
  256 lowers the letters A to Z and the Latin-1 capitals U+00C0 to U+00DE other than U+00D7.
\<close>

record CachedCert =
  cc_domain :: string
  cc_certPem :: string
  cc_keyPem :: string
  cc_notAfterIso :: string
  cc_provider :: string
  cc_updatedAtIso :: string

record ObtainedCertificate =
  oc_certPem :: string
  oc_keyPem :: string
  oc_notAfter :: int
  oc_provider :: string

record Env =
  CF_API_TOKEN :: "string option"
  RENEW_BEFORE_DAYS :: "string option"
  DNS_PROPAGATION_SECONDS :: "string option"

datatype 'v material = FromCache 'v | Issued CachedCert

definition cached_flag :: "'v material \<Rightarrow> bool" where
  "cached_flag m = (case m of FromCache v \<Rightarrow> True | Issued c \<Rightarrow> False)"

definition parseIntEnv :: "(string \<Rightarrow> int option) \<Rightarrow> string option \<Rightarrow> int \<Rightarrow> int" where
  "parseIntEnv parseInt v fallback =
     (case parseInt (case v of None \<Rightarrow> [] | Some s \<Rightarrow> s) of
        None \<Rightarrow> fallback
      | Some parsed \<Rightarrow> parsed)"

definition to_lower :: "char \<Rightarrow> char" where
  "to_lower c =
     (if (65 \<le> (of_char c :: nat) \<and> (of_char c :: nat) \<le> 90)
         \<or> (192 \<le> (of_char c :: nat) \<and> (of_char c :: nat) \<le> 222 \<and> (of_char c :: nat) \<noteq> 215)
      then char_of ((of_char c :: nat) + 32) else c)"

definition toLowerCase :: "string \<Rightarrow> string" where
  "toLowerCase s = map to_lower s"

definition certKey :: "string \<Rightarrow> string" where
  "certKey domain = ''cert:'' @ toLowerCase domain"

definition loadCachedCert :: "(string \<Rightarrow> string option) \<Rightarrow> (string \<Rightarrow> 'v option) \<Rightarrow> string \<Rightarrow> 'v option" where
  "loadCachedCert kv_get JSON_parse domain =
     (case kv_get (certKey domain) of
        None \<Rightarrow> None
      | Some raw \<Rightarrow> if raw = [] then None else JSON_parse raw)"

definition daysUntil :: "int \<Rightarrow> int \<Rightarrow> int" where
  "daysUntil date now = (date - now) div (24 * 60 * 60 * 1000)"

definition getOrRenewCertificateMaterial ::
  "(string \<Rightarrow> int option) \<Rightarrow> (string \<Rightarrow> string option) \<Rightarrow> (string \<Rightarrow> 'v option) \<Rightarrow> ('v \<Rightarrow> bool)
   \<Rightarrow> ('v \<Rightarrow> int option) \<Rightarrow> int \<Rightarrow> (int \<Rightarrow> string) \<Rightarrow> (error + ObtainedCertificate) \<Rightarrow> Env
   \<Rightarrow> 'p list \<Rightarrow> 'z list \<Rightarrow> string \<Rightarrow> error + 'v material" where
  "getOrRenewCertificateMaterial parseInt kv_get JSON_parse truthy notAfterTime now toISOString
     obtained env providers zoneMap domain =
     (let renewBeforeDays = parseIntEnv parseInt (RENEW_BEFORE_DAYS env) 30;
          dnsWaitSeconds = parseIntEnv parseInt (DNS_PROPAGATION_SECONDS env) 20;
          issue = (case obtained of
                     Inl e \<Rightarrow> Inl e
                   | Inr ob \<Rightarrow>
                       Inr (Issued \<lparr>cc_domain = domain, cc_certPem = oc_certPem ob,
                                    cc_keyPem = oc_keyPem ob,
                                    cc_notAfterIso = toISOString (oc_notAfter ob),
                                    cc_provider = oc_provider ob,
                                    cc_updatedAtIso = toISOString now\<rparr>))
      in if CF_API_TOKEN env = None \<or> CF_API_TOKEN env = Some [] then Inl MissingCfApiToken
         else if providers = [] then Inl MissingCaProviders
         else if zoneMap = [] then Inl MissingZoneMap
         else (case loadCachedCert kv_get JSON_parse domain of
                 None \<Rightarrow> issue
               | Some cached \<Rightarrow>
                   if truthy cached
                   then (case notAfterTime cached of
                           None \<Rightarrow> issue
                         | Some notAfter \<Rightarrow>
                             if daysUntil notAfter now \<ge> renewBeforeDays
                             then Inr (FromCache cached)
                             else issue)
                   else issue))"

section \<open>DNS provider (cloudflareDns.ts, createTxtRecord)\<close>





datatype dns_request = ListTxt string | CreateTxt string string | DeleteRecord string









section \<open>Concrete inputs used below\<close>

text \<open>A DER signature whose first INTEGER has 34 content bytes, 33 of them left after the
  leading zero is stripped, and a DER signature of two one-byte INTEGERs.\<close>

definition oversized_signature :: "byte list" where
  "oversized_signature =
     [0x30, 0x27, 0x02, 0x22, 0x00, 0x01] @ map of_nat [1..<33] @ [0x02, 0x01, 0x05]"

definition small_signature :: "byte list" where
  "small_signature = [0x30, 0x06, 0x02, 0x01, 0x01, 0x02, 0x01, 0x02]"

text \<open>A public JWK as WebCrypto may export it: members in another order, with an extra member.\<close>

definition example_jwk :: jsobject where
  "example_jwk = [(''kty'', ''EC''), (''y'', ''eXk''), (''ext'', ''true''), (''x'', ''eHg''),
                  (''crv'', ''P-256'')]"

text \<open>A 400 response with a body of 301 characters, and a JWS.\<close>

definition long_error_response :: Response where
  "long_error_response = \<lparr>status = 400, headers = [], body = Some (replicate 301 CHR ''x'')\<rparr>"

definition some_jws :: Jws where
  "some_jws = \<lparr>protected = ''e30'', payload = [], signature = ''AA''\<rparr>"

text \<open>An authorization and an order that stay pending, their valid forms, and a server that
  answers \<open>pending\<close> to the first twelve requests and \<open>valid\<close> to the thirteenth.\<close>

definition pending_authz :: AcmeAuthorization where
  "pending_authz = \<lparr>identifier_value = ''example.com'', authz_state = AuthzPending, challenges = []\<rparr>"

definition valid_authz :: AcmeAuthorization where
  "valid_authz = \<lparr>identifier_value = ''example.com'', authz_state = AuthzValid, challenges = []\<rparr>"

definition pending_order :: AcmeOrder where
  "pending_order = \<lparr>order_state = OrderProcessing, authorizations = [], finalize = ''f'',
                     certificate = None\<rparr>"

definition valid_order :: AcmeOrder where
  "valid_order = \<lparr>order_state = OrderValid, authorizations = [], finalize = ''f'',
                   certificate = Some ''c''\<rparr>"

definition backoff_schedule :: "nat list" where
  "backoff_schedule = [2000, 3400, 5780, 9826, 10000, 10000, 10000, 10000, 10000, 10000, 10000,
                       10000]"

text \<open>A store with one certificate for \<open>example.com\<close> that expires 45 days after the clock
  reading 1000 (the parsed entry is its \<open>notAfter\<close> time), an issuance that succeeds, and two
  configurations: a complete one and one whose DNS token is not set.\<close>

definition example_kv :: "string \<Rightarrow> string option" where
  "example_kv k = (if k = ''cert:example.com'' then Some ''45d'' else None)"

definition example_parse :: "string \<Rightarrow> int option" where
  "example_parse raw = (if raw = ''45d'' then Some (1000 + 45 * 86400000) else None)"

definition example_obtained :: "error + ObtainedCertificate" where
  "example_obtained = Inr \<lparr>oc_certPem = ''cert'', oc_keyPem = ''key'', oc_notAfter = 7776000000,
                            oc_provider = ''LE''\<rparr>"

definition good_env :: Env where
  "good_env = \<lparr>CF_API_TOKEN = Some ''token'', RENEW_BEFORE_DAYS = None,
                DNS_PROPAGATION_SECONDS = None\<rparr>"

definition env_without_token :: Env where
  "env_without_token = \<lparr>CF_API_TOKEN = None, RENEW_BEFORE_DAYS = None,
                         DNS_PROPAGATION_SECONDS = None\<rparr>"





text \<open>\<^verbatim>\<open>Number.parseInt\<close> on the texts used here (60 for \<open>60\<close>, NaN for the empty text), a
  configuration that renews 60 days before expiry, and an issuance that fails.\<close>

definition example_parseInt :: "string \<Rightarrow> int option" where
  "example_parseInt s = (if s = ''60'' then Some 60 else None)"

definition eager_env :: Env where
  "eager_env = \<lparr>CF_API_TOKEN = Some ''token'', RENEW_BEFORE_DAYS = Some ''60'',
                 DNS_PROPAGATION_SECONDS = None\<rparr>"

definition failed_obtained :: "error + ObtainedCertificate" where
  "failed_obtained = Inl (AllProvidersFailed [''LE: timeout''])"

section \<open>Auxiliary notions for the proofs\<close>

text \<open>The base64 text without its padding, the padding, the base64 alphabet, and the two
  character substitutions of base64url as functions on one character.\<close>

fun enc :: "byte list \<Rightarrow> string" where
  "enc [] = []"
| "enc [a] = [b64_char (unat a div 4), b64_char (unat a mod 4 * 16)]"
| "enc [a, b] =
     [b64_char (unat a div 4), b64_char (unat a mod 4 * 16 + unat b div 16),
      b64_char (unat b mod 16 * 4)]"
| "enc (a # b # c # rest) =
     [b64_char (unat a div 4), b64_char (unat a mod 4 * 16 + unat b div 16),
      b64_char (unat b mod 16 * 4 + unat c div 64), b64_char (unat c mod 64)] @ enc rest"

definition padding :: "nat \<Rightarrow> string" where
  "padding n = (if n mod 3 = 1 then ''=='' else if n mod 3 = 2 then ''='' else [])"

definition is_b64 :: "char \<Rightarrow> bool" where
  "is_b64 c = (b64_index c \<noteq> None)"

definition to_url :: "char \<Rightarrow> char" where
  "to_url c = (if (if c = CHR ''+'' then CHR ''-'' else c) = CHR ''/'' then CHR ''_''
               else (if c = CHR ''+'' then CHR ''-'' else c))"

definition from_url :: "char \<Rightarrow> char" where
  "from_url c = (if (if c = CHR ''-'' then CHR ''+'' else c) = CHR ''_'' then CHR ''/''
               else (if c = CHR ''-'' then CHR ''+'' else c))"

text \<open>
  The claim's formula, written from the spec's words and from the standards it names, not
  from the code. \<open>base64url_rfc4648\<close> is base64url without padding (RFC 4648, sections 4 and
  5): the bytes are read as groups of 24 bits, each group as four 6-bit numbers (a last
  group of 8 or 16 bits is filled with zero bits to 12 or 18 bits), and each number selects
  a character of the alphabet. \<open>utf8_rfc3629\<close> is UTF-8 (RFC 3629) for code points below
  256: \<open>0xxxxxxx\<close> below 128, \<open>110xxxxx 10xxxxxx\<close> from 128 on. \<open>canonical_jwk_json\<close> is the
  JSON text of the four members in the order crv, kty, x, y without whitespace,
  \<open>thumbprint_spec\<close> its SHA-256 in base64url, and \<open>dns01_txt_spec\<close> is
  \<open>base64url(SHA-256(token || '.' || thumbprint))\<close>. \<open>plain\<close> holds of a string that JSON
  writes without an escape.
\<close>

definition base64url_alphabet :: string where
  "base64url_alphabet = ''ABCDEFGHIJKLMNOPQRSTUVWXYZabcdefghijklmnopqrstuvwxyz0123456789-_''"

fun sextets :: "byte list \<Rightarrow> nat list" where
  "sextets [] = []"
| "sextets [a] = [unat a * 16 div 64, unat a * 16 mod 64]"
| "sextets [a, b] =
     [(unat a * 256 + unat b) * 4 div 4096, (unat a * 256 + unat b) * 4 div 64 mod 64,
      (unat a * 256 + unat b) * 4 mod 64]"
| "sextets (a # b # c # rest) =
     [(unat a * 65536 + unat b * 256 + unat c) div 262144,
      (unat a * 65536 + unat b * 256 + unat c) div 4096 mod 64,
      (unat a * 65536 + unat b * 256 + unat c) div 64 mod 64,
      (unat a * 65536 + unat b * 256 + unat c) mod 64] @ sextets rest"

definition base64url_rfc4648 :: "byte list \<Rightarrow> string" where
  "base64url_rfc4648 bytes = map (\<lambda>i. base64url_alphabet ! i) (sextets bytes)"

definition utf8_rfc3629_char :: "char \<Rightarrow> byte list" where
  "utf8_rfc3629_char c =
     (let w = (of_char c :: 16 word)
      in if w < 0x80 then [ucast w]
         else [ucast (0xC0 OR drop_bit 6 w), ucast (0x80 OR (w AND 0x3F))])"

definition utf8_rfc3629 :: "string \<Rightarrow> byte list" where
  "utf8_rfc3629 s = concat (map utf8_rfc3629_char s)"

definition canonical_jwk_json :: "string \<Rightarrow> string \<Rightarrow> string \<Rightarrow> string \<Rightarrow> string" where
  "canonical_jwk_json crv kty x y =
     ''{'' @ [DQ] @ ''crv'' @ [DQ] @ '':'' @ json_quote crv @ '',''
           @ [DQ] @ ''kty'' @ [DQ] @ '':'' @ json_quote kty @ '',''
           @ [DQ] @ ''x'' @ [DQ] @ '':'' @ json_quote x @ '',''
           @ [DQ] @ ''y'' @ [DQ] @ '':'' @ json_quote y @ ''}''"

definition thumbprint_spec ::
  "(byte list \<Rightarrow> byte list) \<Rightarrow> string \<Rightarrow> string \<Rightarrow> string \<Rightarrow> string \<Rightarrow> string" where
  "thumbprint_spec sha256 crv kty x y =
     base64url_rfc4648 (sha256 (utf8_rfc3629 (canonical_jwk_json crv kty x y)))"

definition dns01_txt_spec ::
  "(byte list \<Rightarrow> byte list) \<Rightarrow> string \<Rightarrow> string \<Rightarrow> string \<Rightarrow> string \<Rightarrow> string \<Rightarrow> string" where
  "dns01_txt_spec sha256 crv kty x y token =
     base64url_rfc4648 (sha256 (utf8_rfc3629 (token @ ''.'' @ thumbprint_spec sha256 crv kty x y)))"

definition plain :: "string \<Rightarrow> bool" where
  "plain s = (\<forall>c \<in> set s. c \<noteq> DQ \<and> c \<noteq> BACKSLASH \<and> 0x20 \<le> (of_char c :: nat))"

text \<open>The claim's condition, written from its words: an entry is stored under the key of
  the lower-cased domain, it parses (it is not empty, \<^verbatim>\<open>JSON.parse\<close> accepts it, and the value
  counts as present), its \<open>notAfterIso\<close> parses, and \<open>floor((notAfter - now) / 86400000)\<close> is
  at least \<open>renewBeforeDays\<close>; and the result of running the issuance: its error, or the
  issued certificate.\<close>

definition issue_outcome ::
  "(int \<Rightarrow> string) \<Rightarrow> int \<Rightarrow> (error + ObtainedCertificate) \<Rightarrow> string \<Rightarrow> error + 'v material" where
  "issue_outcome toISOString now obtained domain =
     (case obtained of
        Inl e \<Rightarrow> Inl e
      | Inr ob \<Rightarrow>
          Inr (Issued \<lparr>cc_domain = domain, cc_certPem = oc_certPem ob,
                       cc_keyPem = oc_keyPem ob,
                       cc_notAfterIso = toISOString (oc_notAfter ob),
                       cc_provider = oc_provider ob,
                       cc_updatedAtIso = toISOString now\<rparr>))"

definition cache_fresh ::
  "(string \<Rightarrow> string option) \<Rightarrow> (string \<Rightarrow> 'v option) \<Rightarrow> ('v \<Rightarrow> bool) \<Rightarrow> ('v \<Rightarrow> int option) \<Rightarrow> int
   \<Rightarrow> int \<Rightarrow> string \<Rightarrow> bool" where
  "cache_fresh kv_get JSON_parse truthy notAfterTime now renewBeforeDays domain =
     (case kv_get (''cert:'' @ toLowerCase domain) of
        None \<Rightarrow> False
      | Some raw \<Rightarrow>
          raw \<noteq> [] \<and>
          (case JSON_parse raw of
             None \<Rightarrow> False
           | Some v \<Rightarrow>
               truthy v \<and>
               (case notAfterTime v of
                  None \<Rightarrow> False
                | Some notAfter \<Rightarrow> renewBeforeDays \<le> (notAfter - now) div 86400000)))"

section \<open>Properties\<close>

subsection \<open>Base64 round trips\<close>

lemma Suc3_mod: "Suc (Suc (Suc n)) mod 3 = n mod 3"
  by presburger

lemma btoa_enc: "btoa bs = enc bs @ padding (length bs)"
  by (induction bs rule: btoa.induct) (simp_all add: padding_def Suc3_mod)

lemma length_enc_mod: "length (enc bs) mod 4 = (if length bs mod 3 = 0 then 0 else length bs mod 3 + 1)"
  by (induction bs rule: enc.induct) (simp_all add: Suc3_mod)

lemma b64_index_char: "i < 64 \<Longrightarrow> b64_index (b64_char i) = Some i"
  by (auto simp: b64_index_def b64_char_def Let_def)

lemma byte_lt: "unat (a::byte) < 256"
  using unsigned_less[of a, where 'a=nat] by simp

lemma div_mult_add: "r < m \<Longrightarrow> (q * m + r) div m = (q::nat)"
  by simp

lemma mod_mult_add: "r < m \<Longrightarrow> (q * m + r) mod m = (r::nat)"
  by simp

lemma byte_div16: "unat (b::byte) div 16 < 16"
  using byte_lt[of b] by (simp add: less_mult_imp_div_less)

lemma byte_div64: "unat (b::byte) div 64 < 4"
  using byte_lt[of b] by (simp add: less_mult_imp_div_less)

lemma byte_div4: "unat (b::byte) div 4 < 64"
  using byte_lt[of b] by (simp add: less_mult_imp_div_less)

lemma mod4_16: "(x::nat) mod 4 * 16 + y < 64" if "y < 16"
proof -
  have "x mod 4 \<le> 3" by simp
  then have "x mod 4 * 16 \<le> 48" by simp
  then show ?thesis using that by simp
qed

lemma mod16_4: "(x::nat) mod 16 * 4 + y < 64" if "y < 4"
proof -
  have "x mod 16 \<le> 15" by simp
  then have "x mod 16 * 4 \<le> 60" by simp
  then show ?thesis using that by simp
qed

lemma sextet_bounds:
  "unat (a::byte) div 4 < 64" "unat (a::byte) mod 4 * 16 < 64"
  "unat (a::byte) mod 4 * 16 + unat (b::byte) div 16 < 64"
  "unat (b::byte) mod 16 * 4 < 64"
  "unat (b::byte) mod 16 * 4 + unat (c::byte) div 64 < 64"
  "unat (c::byte) mod 64 < 64"
  using mod4_16[of 0 "unat a"] mod4_16[OF byte_div16[of b], of "unat a"]
        mod16_4[of 0 "unat b"] mod16_4[OF byte_div64[of c], of "unat b"]
  by (simp_all add: byte_div4)

lemma is_b64_char: "i < 64 \<Longrightarrow> is_b64 (b64_char i)"
  by (simp add: is_b64_def b64_index_char)

lemma enc_is_b64: "\<forall>c \<in> set (enc bs). is_b64 c"
  by (induction bs rule: enc.induct) (simp_all add: is_b64_char sextet_bounds)

lemma decode_a: "unat (a::byte) div 4 * 4 + (unat a mod 4 * 16 + unat (b::byte) div 16) div 16 = unat a"
  by (simp only: div_mult_add[OF byte_div16] div_mult_mod_eq)

lemma decode_b:
  "(unat (a::byte) mod 4 * 16 + unat (b::byte) div 16) mod 16 * 16
     + (unat b mod 16 * 4 + unat (c::byte) div 64) div 4 = unat b"
  by (simp only: mod_mult_add[OF byte_div16] div_mult_add[OF byte_div64] div_mult_mod_eq)

lemma decode_c:
  "(unat (b::byte) mod 16 * 4 + unat (c::byte) div 64) mod 4 * 64 + unat c mod 64 = unat c"
  by (simp only: mod_mult_add[OF byte_div64] div_mult_mod_eq)

lemma decode_a1: "unat (a::byte) div 4 * 4 + (unat a mod 4 * 16) div 16 = unat a"
  by simp

lemma decode_b1:
  "(unat (a::byte) mod 4 * 16 + unat (b::byte) div 16) mod 16 * 16 + (unat b mod 16 * 4) div 4 = unat b"
proof -
  have "(unat b mod 16 * 4) div 4 = unat b mod 16" by simp
  then show ?thesis by (simp only: mod_mult_add[OF byte_div16] div_mult_mod_eq)
qed

lemma of_nat_unat_byte: "of_nat (unat (a::byte)) = a"
  by simp

lemma decode_enc:
  "those (map b64_index (enc bs)) = Some is \<Longrightarrow> decode_sextets is = bs"
proof (induction bs arbitrary: "is" rule: enc.induct)
  case 1 then show ?case by simp
next
  case (2 a)
  then have "is = [unat a div 4, unat a mod 4 * 16]"
    by (auto simp: b64_index_char sextet_bounds)
  then show ?case
    by (simp only: decode_sextets.simps decode_a1 of_nat_unat_byte)
next
  case (3 a b)
  then have "is = [unat a div 4, unat a mod 4 * 16 + unat b div 16, unat b mod 16 * 4]"
    by (auto simp: b64_index_char sextet_bounds)
  then show ?case
    by (simp only: decode_sextets.simps decode_a decode_b1 of_nat_unat_byte)
next
  case (4 a b c rest)
  from "4.prems" obtain js where js: "those (map b64_index (enc rest)) = Some js"
    and "is": "is = unat a div 4 # (unat a mod 4 * 16 + unat b div 16) #
              (unat b mod 16 * 4 + unat c div 64) # unat c mod 64 # js"
    by (auto simp: b64_index_char sextet_bounds split: option.splits)
  show ?case using "4.IH"[OF js]
    by (simp only: "is" decode_sextets.simps decode_a decode_b decode_c of_nat_unat_byte
          append_Cons append_Nil)
qed

lemma those_enc: "\<exists>is. those (map b64_index (enc bs)) = Some is"
  by (induction bs rule: enc.induct) (auto simp: b64_index_char sextet_bounds)

lemma is_b64_not_special:
  assumes "is_b64 c"
  shows "c \<noteq> CHR ''=''" "c \<notin> ascii_whitespace" "c \<notin> js_whitespace" "c \<noteq> CHR ''-''" "c \<noteq> CHR ''_''"
  using assms by (auto simp: is_b64_def b64_index_def ascii_whitespace_def js_whitespace_def)

lemma strip_padding_rev_none:
  "CHR ''='' \<notin> set xs \<Longrightarrow> strip_padding_rev (rev xs) = rev xs"
  by (cases "rev xs" rule: strip_padding_rev.cases)
     (auto simp: rev_eq_Cons_iff)

lemma strip_padding_rev_one:
  "CHR ''='' \<notin> set xs \<Longrightarrow> strip_padding_rev (CHR ''='' # rev xs) = rev xs"
  by (cases "rev xs") (auto simp: rev_eq_Cons_iff)

lemma strip_padding_rev_two:
  "strip_padding_rev (CHR ''='' # CHR ''='' # ys) = ys"
  by simp

lemma strip_padding_enc:
  "rev (strip_padding_rev (rev (enc bs @ padding n))) = enc bs"
proof -
  have ne: "CHR ''='' \<notin> set (enc bs)"
    using enc_is_b64[of bs] is_b64_not_special(1) by blast
  show ?thesis
    using strip_padding_rev_none[OF ne] strip_padding_rev_one[OF ne]
    by (simp add: padding_def)
qed

lemma length_btoa_mod: "length (btoa bs) mod 4 = 0"
  by (induction bs rule: btoa.induct) simp_all

lemma btoa_no_whitespace: "filter (\<lambda>c. c \<notin> ascii_whitespace) (btoa bs) = btoa bs"
proof -
  have "\<forall>c \<in> set (btoa bs). c \<notin> ascii_whitespace"
    using enc_is_b64[of bs] is_b64_not_special(2)
    by (auto simp: btoa_enc padding_def ascii_whitespace_def)
  then show ?thesis by (simp add: filter_id_conv)
qed

lemma length_enc_mod_ne1: "length (enc bs) mod 4 \<noteq> 1"
  by (simp add: length_enc_mod)

lemma atob_btoa: "atob (btoa bs) = Inr bs"
proof -
  obtain "is" where "is": "those (map b64_index (enc bs)) = Some is"
    using those_enc by blast
  have d: "rev (strip_padding_rev (rev (btoa bs))) = enc bs"
    using strip_padding_enc[of bs "length bs"] by (simp add: btoa_enc)
  show ?thesis
    unfolding atob_def Let_def btoa_no_whitespace
    using length_enc_mod_ne1[of bs]
    by (simp add: length_btoa_mod d "is" decode_enc[OF "is"])
qed

lemma replace_to_url:
  "replace_char CHR ''/'' CHR ''_'' (replace_char CHR ''+'' CHR ''-'' s) = map to_url s"
  by (simp add: replace_char_def to_url_def)

lemma replace_from_url:
  "replace_char CHR ''_'' CHR ''/'' (replace_char CHR ''-'' CHR ''+'' s) = map from_url s"
  by (simp add: replace_char_def from_url_def)

lemma from_to_url: "is_b64 c \<Longrightarrow> from_url (to_url c) = c"
  using is_b64_not_special(4,5)[of c] by (auto simp: from_url_def to_url_def)

lemma to_url_not_special:
  assumes "is_b64 c"
  shows "to_url c \<noteq> CHR ''=''" "to_url c \<notin> js_whitespace"
  using is_b64_not_special(1,3)[OF assms]
  by (auto simp: to_url_def js_whitespace_def)

lemma dropWhile_id: "\<forall>c \<in> set xs. \<not> P c \<Longrightarrow> dropWhile P xs = xs"
  by (cases xs) auto

lemma strip_trailing_eq_id: "CHR ''='' \<notin> set xs \<Longrightarrow> strip_trailing_eq xs = xs"
  unfolding strip_trailing_eq_def by (subst dropWhile_id) auto

lemma strip_trailing_eq_padding:
  "CHR ''='' \<notin> set xs \<Longrightarrow> strip_trailing_eq (xs @ padding n) = xs"
  unfolding strip_trailing_eq_def
  by (cases "rev xs") (auto simp: padding_def)

lemma trim_id: "\<forall>c \<in> set xs. c \<notin> js_whitespace \<Longrightarrow> trim xs = xs"
  unfolding trim_def by (simp add: dropWhile_id)

lemma base64UrlEncode_enc: "base64UrlEncode bs = map to_url (enc bs)"
proof -
  have "\<forall>c \<in> set (enc bs). to_url c \<noteq> CHR ''=''"
    using enc_is_b64[of bs] to_url_not_special(1) by blast
  then have ne: "CHR ''='' \<notin> set (map to_url (enc bs))"
    by force
  have "map to_url (btoa bs) = map to_url (enc bs) @ padding (length bs)"
    by (simp add: btoa_enc padding_def to_url_def)
  then show ?thesis
    unfolding base64UrlEncode_def replace_to_url
    using strip_trailing_eq_padding[OF ne] by simp
qed

lemma restore_padding:
  "drop ((length (enc bs) + 3) mod 4) ''==='' = padding (length bs)"
proof -
  have cases: "length bs mod 3 = 0 \<or> length bs mod 3 = 1 \<or> length bs mod 3 = 2" by presburger
  have "(length (enc bs) + 3) mod 4 = (length (enc bs) mod 4 + 3) mod 4"
    by presburger
  then have "(length (enc bs) + 3) mod 4
      = ((if length bs mod 3 = 0 then 0 else length bs mod 3 + 1) + 3) mod 4"
    by (simp only: length_enc_mod)
  then show ?thesis using cases
    by (auto simp: padding_def)
qed

lemma base64UrlDecode_Encode: "base64UrlDecodeToBytes (base64UrlEncode bs) = Inr bs"
proof -
  let ?u = "map to_url (enc bs)"
  have "\<forall>c \<in> set (enc bs). to_url c \<noteq> CHR ''=''"
    using enc_is_b64[of bs] to_url_not_special(1) by blast
  then have ne: "CHR ''='' \<notin> set ?u"
    by force
  have "\<forall>c \<in> set (enc bs). to_url c \<notin> js_whitespace"
    using enc_is_b64[of bs] to_url_not_special(2) by blast
  then have nw: "\<forall>c \<in> set ?u. c \<notin> js_whitespace"
    by simp
  have unmap: "map from_url ?u = enc bs"
    using enc_is_b64[of bs] by (simp add: from_to_url map_idI)
  show ?thesis
    unfolding base64UrlDecodeToBytes_def Let_def base64UrlEncode_enc replace_from_url
    by (simp only: trim_id[OF nw] strip_trailing_eq_id[OF ne] unmap restore_padding
          btoa_enc[symmetric] atob_btoa)
qed

subsection \<open>DER to JOSE\<close>

lemma length_slice_tail:
  "n < length xs \<Longrightarrow> slice xs (int (length xs) - int n) (int (length xs)) = drop (length xs - n) xs"
  by (simp add: slice_def Let_def nat_diff_distrib' )

lemma leftPad_long: "len < length bytes \<Longrightarrow> leftPad bytes len = drop (length bytes - len) bytes"
  by (simp add: leftPad_def length_slice_tail)

lemma leftPad_short:
  "length bytes \<le> len \<Longrightarrow> leftPad bytes len = replicate (len - length bytes) 0 @ bytes"
  by (simp add: leftPad_def)

lemma length_leftPad: "length (leftPad bytes len) = len"
proof (cases "len < length bytes")
  case True then show ?thesis by (simp add: leftPad_long)
next
  case False then show ?thesis by (simp add: leftPad_short)
qed

lemma typed_set_two:
  assumes "length a = k" "length b = k"
  shows "(case typed_set (replicate (k * 2) 0) a 0 of
            Inl e \<Rightarrow> Inl e
          | Inr out \<Rightarrow> typed_set out b k) = Inr (a @ b)"
  using assms by (simp add: typed_set_def)

lemma derEcdsaSigToJose_parsed:
  assumes "at bytes 0 = Some 0x30"
    and "readDerLength bytes 1 = Inr (seqLen, o1)"
    and "readDerInteger bytes o1 = Inr (r, o2)"
    and "readDerInteger bytes o2 = Inr (s, o3)"
  shows "derEcdsaSigToJose bytes k = Inr (leftPad r k @ leftPad s k)"
  unfolding derEcdsaSigToJose_def using assms
  by (simp add: typed_set_two length_leftPad)

lemma derEcdsaSigToJose_Inr:
  assumes "derEcdsaSigToJose bytes k = Inr out"
  shows "\<exists>seqLen o1 r o2 s o3. at bytes 0 = Some 0x30
            \<and> readDerLength bytes 1 = Inr (seqLen, o1)
            \<and> readDerInteger bytes o1 = Inr (r, o2)
            \<and> readDerInteger bytes o2 = Inr (s, o3)
            \<and> out = leftPad r k @ leftPad s k"
  using assms unfolding derEcdsaSigToJose_def
  by (auto simp: typed_set_two length_leftPad split: if_splits sum.splits prod.splits)

lemma stripLeadingZeros_hd: "stripLeadingZeros bs = [] \<or> hd (stripLeadingZeros bs) \<noteq> 0"
  by (induction bs) auto

lemma stripLeadingZeros_eq: "stripLeadingZeros bs = dropWhile (\<lambda>b. b = 0) bs"
  by (induction bs) auto

lemma readDerInteger_stripped:
  "readDerInteger bytes off = Inr (v, off') \<Longrightarrow> v = [] \<or> hd v \<noteq> 0"
proof -
  assume "readDerInteger bytes off = Inr (v, off')"
  then obtain xs where "v = stripLeadingZeros xs"
    unfolding readDerInteger_def by (auto split: if_splits sum.splits prod.splits)
  then show ?thesis using stripLeadingZeros_hd[of xs] by simp
qed

text \<open>
  Claim C10. An input that the code reads as a SEQUENCE tag, a length, and two INTEGERs
  (\<open>r\<close> and \<open>s\<close> are the values \<open>readDerInteger\<close> returns, leading zero bytes already
  stripped) is always converted: \<open>derEcdsaSigToJose input 32\<close> returns 64 bytes and raises
  no error. When \<open>r\<close> (or \<open>s\<close>) is still longer than 32 bytes, its half of the output is
  its last 32 bytes: the high-order bytes are dropped silently.
\<close>

theorem derEcdsaSigToJose_truncates_oversized:
  assumes "at bytes 0 = Some 0x30"
    and "readDerLength bytes 1 = Inr (seqLen, o1)"
    and "readDerInteger bytes o1 = Inr (r, o2)"
    and "readDerInteger bytes o2 = Inr (s, o3)"
  shows "\<exists>out. derEcdsaSigToJose bytes 32 = Inr out \<and> length out = 64
           \<and> take 32 out = leftPad r 32 \<and> drop 32 out = leftPad s 32
           \<and> (32 < length r \<longrightarrow> take 32 out = drop (length r - 32) r)
           \<and> (32 < length s \<longrightarrow> drop 32 out = drop (length s - 32) s)"
proof -
  have "derEcdsaSigToJose bytes 32 = Inr (leftPad r 32 @ leftPad s 32)"
    using assms by (rule derEcdsaSigToJose_parsed)
  then show ?thesis
    by (simp add: length_leftPad leftPad_long)
qed

theorem derEcdsaSigToJose_truncates_oversized_witness:
  "\<exists>out. derEcdsaSigToJose oversized_signature 32 = Inr out \<and> length out = 64
     \<and> take 32 out = map of_nat [1..<33] \<and> drop 32 out = replicate 31 0 @ [5]"
proof -
  have a: "at oversized_signature 0 = Some 0x30" by code_simp
  have b: "readDerLength oversized_signature 1 = Inr (39, 2)" by code_simp
  have c: "readDerInteger oversized_signature 2 = Inr (1 # map of_nat [1..<33], 38)"
    by code_simp
  have d: "readDerInteger oversized_signature 38 = Inr ([5], 41)" by code_simp
  have l: "leftPad [5] 32 = replicate 31 0 @ [5]" by code_simp
  from derEcdsaSigToJose_truncates_oversized[OF a b c d] show ?thesis
    by (auto simp: l)
qed

subsection \<open>The JWS signature\<close>

text \<open>
  Claim C6. Whenever \<open>signEs256Jws\<close> produces a JWS, its \<open>signature\<close> field decodes
  (\<open>base64UrlDecodeToBytes\<close>) to exactly 64 bytes. These are the two INTEGERs \<open>r\<close> and \<open>s\<close>
  read from the DER signature the platform returned for the signing input
  \<open>protected.payload\<close>, each with its leading zero bytes stripped and then brought to 32 bytes
  by \<open>leftPad\<close>; an INTEGER of at most 32 bytes is padded with zero bytes on the left.
\<close>

theorem signEs256Jws_signature_64_bytes:
  assumes "signEs256Jws subtle_sign JSON_stringify privateKey protectedHeader pl = Inr jws"
  shows "\<exists>sig derSig o1 r o2 s o3.
           base64UrlDecodeToBytes (signature jws) = Inr sig \<and> length sig = 64
         \<and> subtle_sign privateKey (utf8ToBytes (protected jws @ ''.'' @ payload jws)) = Inr derSig
         \<and> readDerInteger derSig o1 = Inr (r, o2) \<and> readDerInteger derSig o2 = Inr (s, o3)
         \<and> (r = [] \<or> hd r \<noteq> 0) \<and> (s = [] \<or> hd s \<noteq> 0)
         \<and> sig = leftPad r 32 @ leftPad s 32
         \<and> length (leftPad r 32) = 32 \<and> length (leftPad s 32) = 32
         \<and> (length r \<le> 32 \<longrightarrow> leftPad r 32 = replicate (32 - length r) 0 @ r)
         \<and> (length s \<le> 32 \<longrightarrow> leftPad s 32 = replicate (32 - length s) 0 @ s)"
proof -
  from assms obtain derSig jose where
      sg: "subtle_sign privateKey (utf8ToBytes (protected jws @ ''.'' @ payload jws)) = Inr derSig"
    and dj: "derEcdsaSigToJose derSig 32 = Inr jose"
    and sj: "signature jws = base64UrlEncode jose"
    unfolding signEs256Jws_def Let_def by (auto split: sum.splits)
  from derEcdsaSigToJose_Inr[OF dj] obtain o1 r o2 s o3 where
      r: "readDerInteger derSig o1 = Inr (r, o2)"
    and s: "readDerInteger derSig o2 = Inr (s, o3)"
    and j: "jose = leftPad r 32 @ leftPad s 32"
    by blast
  have dec: "base64UrlDecodeToBytes (signature jws) = Inr jose"
    by (simp only: sj base64UrlDecode_Encode)
  have len: "length jose = 64" by (simp add: j length_leftPad)
  have "base64UrlDecodeToBytes (signature jws) = Inr jose \<and> length jose = 64
         \<and> subtle_sign privateKey (utf8ToBytes (protected jws @ ''.'' @ payload jws)) = Inr derSig
         \<and> readDerInteger derSig o1 = Inr (r, o2) \<and> readDerInteger derSig o2 = Inr (s, o3)
         \<and> (r = [] \<or> hd r \<noteq> 0) \<and> (s = [] \<or> hd s \<noteq> 0)
         \<and> jose = leftPad r 32 @ leftPad s 32
         \<and> length (leftPad r 32) = 32 \<and> length (leftPad s 32) = 32
         \<and> (length r \<le> 32 \<longrightarrow> leftPad r 32 = replicate (32 - length r) 0 @ r)
         \<and> (length s \<le> 32 \<longrightarrow> leftPad s 32 = replicate (32 - length s) 0 @ s)"
    using dec len sg r s j readDerInteger_stripped[OF r] readDerInteger_stripped[OF s]
    by (simp add: length_leftPad leftPad_short)
  then show ?thesis by blast
qed

theorem signEs256Jws_signature_64_bytes_witness:
  "\<exists>jws sig. signEs256Jws (\<lambda>k input. Inr small_signature) (\<lambda>j. j) ()
                 ''{}'' (PayloadString []) = Inr jws
     \<and> base64UrlDecodeToBytes (signature jws) = Inr sig \<and> length sig = 64
     \<and> sig = replicate 31 0 @ [1] @ replicate 31 0 @ [2]"
proof -
  have d: "derEcdsaSigToJose small_signature 32
             = Inr (replicate 31 0 @ [1] @ replicate 31 0 @ [2])"
    by code_simp
  have e: "signEs256Jws (\<lambda>k input. Inr small_signature) (\<lambda>j. j) ()
             ''{}'' (PayloadString [])
           = Inr \<lparr>protected = base64UrlEncode (utf8ToBytes ''{}''),
                  payload = base64UrlEncode (utf8ToBytes []),
                  signature = base64UrlEncode (replicate 31 0 @ [1] @ replicate 31 0 @ [2])\<rparr>"
    by (simp add: signEs256Jws_def Let_def d)
  from signEs256Jws_signature_64_bytes[OF e] show ?thesis
    using e by (simp add: base64UrlDecode_Encode)
qed

subsection \<open>PEM\<close>

lemma split_on_ne: "split_on sep s \<noteq> []"
  by (induction s) (auto split: list.splits)

lemma split_on_prefix:
  "sep \<notin> set a \<Longrightarrow> split_on sep (a @ sep # rest) = a # split_on sep rest"
  by (induction a) (auto split: list.splits)

lemma split_on_join:
  "\<forall>c \<in> set cs. sep \<notin> set c \<Longrightarrow>
   split_on sep (join [sep] cs @ sep # rest) = (if cs = [] then [[]] else cs) @ split_on sep rest"
proof (induction "[sep]" cs rule: join.induct)
  case 1
  then show ?case by simp
next
  case (2 x)
  then show ?case by (simp add: split_on_prefix)
next
  case (3 x y ys)
  then show ?case by (simp add: split_on_prefix)
qed

lemma set_join: "set (join sep cs) \<subseteq> set sep \<union> \<Union> (set ` set cs)"
  by (induction sep cs rule: join.induct) auto

lemma concat_chunks64: "concat (chunks64 s) = s"
  by (induction s rule: chunks64.induct) (subst chunks64.simps, simp)

lemma chunks64_elem: "c \<in> set (chunks64 s) \<Longrightarrow> c \<noteq> [] \<and> set c \<subseteq> set s"
proof (induction s rule: chunks64.induct)
  case (1 s)
  show ?case
  proof (cases "s = []")
    case True
    then show ?thesis using "1.prems" by (subst (asm) chunks64.simps) simp
  next
    case False
    then have "c = take 64 s \<or> c \<in> set (chunks64 (drop 64 s))"
      using "1.prems" by (subst (asm) chunks64.simps) simp
    then show ?thesis
    proof
      assume "c = take 64 s"
      then show ?thesis using False by (auto dest: in_set_takeD)
    next
      assume "c \<in> set (chunks64 (drop 64 s))"
      then show ?thesis using "1.IH"[OF False] by (auto dest: in_set_dropD)
    qed
  qed
qed

lemma btoa_chars:
  assumes "c \<in> set (btoa bs)"
  shows "c \<noteq> LF" "c \<noteq> CR" "c \<noteq> CHR ''-''"
proof -
  have "is_b64 c \<or> c = CHR ''=''"
    using assms enc_is_b64[of bs] by (auto simp: btoa_enc padding_def split: if_splits)
  then show "c \<noteq> LF" "c \<noteq> CR" "c \<noteq> CHR ''-''"
    using is_b64_not_special(2,4)[of c]
    by (auto simp: LF_def CR_def ascii_whitespace_def)
qed

lemma pemToDer_derToPem:
  assumes "LF \<notin> set label"
  shows "pemToDer (derToPem der label) = Inr der"
proof -
  let ?b = "btoa der"
  let ?cs = "chunks64 ?b"
  let ?L = "filter (\<lambda>c. c \<noteq> CR) label"
  let ?H = "''-----BEGIN '' @ ?L @ ''-----''"
  let ?F = "''-----END '' @ ?L @ ''-----''"
  have cs_chars: "\<forall>c \<in> set ?cs. \<forall>x \<in> set c. x \<noteq> LF \<and> x \<noteq> CR \<and> x \<noteq> CHR ''-''"
    using chunks64_elem[of _ ?b] btoa_chars[of _ der] by blast
  have cs_ne: "\<forall>c \<in> set ?cs. c \<noteq> []"
    using chunks64_elem[of _ ?b] by blast
  have nolf: "\<forall>c \<in> set ?cs. LF \<notin> set c" using cs_chars by blast
  have "\<forall>x \<in> set (join [LF] ?cs). x \<noteq> CR"
    using set_join[of "[LF]" ?cs] cs_chars by (auto simp: LF_def CR_def)
  then have fj: "filter (\<lambda>c. c \<noteq> CR) (join [LF] ?cs) = join [LF] ?cs"
    by (simp add: filter_id_conv)
  have f: "filter (\<lambda>c. c \<noteq> CR) (derToPem der label)
             = ?H @ LF # (join [LF] ?cs @ LF # (?F @ LF # []))"
    unfolding derToPem_def by (simp add: fj) (simp add: LF_def CR_def)
  have LFH: "LF \<notin> set ?H" "LF \<notin> set ?F" using assms by (auto simp: LF_def)
  have sp: "split_on LF (?H @ LF # (join [LF] ?cs @ LF # (?F @ LF # [])))
             = ?H # ((if ?cs = [] then [[]] else ?cs) @ [?F, []])"
    by (simp only: split_on_prefix[OF LFH(1)] split_on_join[OF nolf] split_on_prefix[OF LFH(2)]
          split_on.simps)
  have keep: "filter (\<lambda>l. \<not> prefix ''-----'' l) ?cs = ?cs"
  proof -
    have "\<forall>c \<in> set ?cs. \<not> prefix ''-----'' c"
    proof
      fix c assume c: "c \<in> set ?cs"
      then have "c \<noteq> []" using cs_ne by blast
      then obtain x xs where "c = x # xs" by (cases c) auto
      moreover have "x \<noteq> CHR ''-''" using cs_chars c calculation by auto
      ultimately show "\<not> prefix ''-----'' c" by simp
    qed
    then show ?thesis by (simp add: filter_id_conv)
  qed
  have "concat (filter (\<lambda>l. \<not> prefix ''-----'' l)
                 (?H # ((if ?cs = [] then [[]] else ?cs) @ [?F, []]))) = concat ?cs"
    by (simp add: keep)
  then show ?thesis
    unfolding pemToDer_def f sp by (simp only: concat_chunks64 atob_btoa)
qed

text \<open>
  Claim C8, as stated, fails: the block that \<open>extractFirstCertificatePem\<close> cuts out of a chain
  (one block, matching label, no newline after the END line) is decoded by \<open>pemToDer\<close>, and
  \<open>derToPem\<close> of the result is a different string, since it always ends with a newline.
\<close>

theorem derToPem_pemToDer_counterexample:
  "pemToDer example_block = Inr [0, 0, 0]
   \<and> derToPem [0, 0, 0] ''CERTIFICATE'' \<noteq> example_block"
proof -
  have "pemToDer example_block = Inr [0, 0, 0]" by code_simp
  moreover have "derToPem [0, 0, 0] ''CERTIFICATE'' = example_block @ [LF]" by code_simp
  ultimately show ?thesis by simp
qed

text \<open>
  Claim C8, amended. For a label without a line feed, the text \<open>p = derToPem der label\<close> (one
  block in the layout \<open>derToPem\<close> writes: line feeds, base64 lines of 64 characters, a newline
  after the END line) is decoded to \<open>der\<close>, and encoding the decoded bytes gives \<open>p\<close> back.
\<close>

theorem derToPem_pemToDer_canonical:
  assumes "LF \<notin> set label"
  shows "pemToDer (derToPem der label) = Inr der
         \<and> map_sum id (\<lambda>d. derToPem d label) (pemToDer (derToPem der label))
             = Inr (derToPem der label)"
  by (simp add: pemToDer_derToPem[OF assms])

theorem derToPem_pemToDer_canonical_witness:
  "pemToDer (derToPem [0, 0, 0] ''CERTIFICATE'') = Inr [0, 0, 0]
   \<and> map_sum id (\<lambda>d. derToPem d ''CERTIFICATE'') (pemToDer (derToPem [0, 0, 0] ''CERTIFICATE''))
       = Inr (example_block @ [LF])"
proof -
  have l: "LF \<notin> set ''CERTIFICATE''" by (simp add: LF_def)
  have "derToPem [0, 0, 0] ''CERTIFICATE'' = example_block @ [LF]" by code_simp
  then show ?thesis using derToPem_pemToDer_canonical[OF l, of "[0, 0, 0]"] by simp
qed

subsection \<open>The retry loop\<close>

lemma fetchWithRetry_loop_result:
  assumes "0 \<le> attempt" "attempt \<le> retries"
  shows "(\<exists>i r. attempt \<le> i \<and> i \<le> retries \<and> fetch (nat i) = Inr r
            \<and> fst (fetchWithRetry_loop fetch jitter retries attempt lastError sleeps) = Inr r
            \<and> (status r \<notin> transient \<or> i = retries)
            \<and> (\<forall>j. attempt \<le> j \<and> j < i \<longrightarrow>
                  (case fetch (nat j) of Inr rj \<Rightarrow> status rj \<in> transient | Inl e \<Rightarrow> True)))
       \<or> (\<exists>e. fetch (nat retries) = Inl e
            \<and> fst (fetchWithRetry_loop fetch jitter retries attempt lastError sleeps) = Inl e)"
  using assms
proof (induction fetch jitter retries attempt lastError sleeps rule: fetchWithRetry_loop.induct)
  case (1 fetch jitter retries attempt lastError sleeps)
  show ?case
  proof (cases "fetch (nat attempt)")
    case (Inr res)
    show ?thesis
    proof (cases "status res \<notin> transient \<or> attempt = retries")
      case True
      have "fst (fetchWithRetry_loop fetch jitter retries attempt lastError sleeps) = Inr res"
        using "1.prems" Inr True by (subst fetchWithRetry_loop.simps) auto
      then show ?thesis using Inr True "1.prems" by (intro disjI1 exI[of _ attempt] exI[of _ res]) auto
    next
      case False
      then have lt: "attempt + 1 \<le> retries" "0 \<le> attempt + 1" using "1.prems" by auto
      have eq: "fetchWithRetry_loop fetch jitter retries attempt lastError sleeps
                = fetchWithRetry_loop fetch jitter retries (attempt + 1) lastError
                    (sleeps @ [backoffMs jitter (nat attempt)])"
        using "1.prems" Inr False by (subst fetchWithRetry_loop.simps) auto
      from "1.IH"(2)[OF "1.prems"(2) Inr False lt(2) lt(1)] show ?thesis
      proof
        assume "\<exists>i r. attempt + 1 \<le> i \<and> i \<le> retries \<and> fetch (nat i) = Inr r
            \<and> fst (fetchWithRetry_loop fetch jitter retries (attempt + 1) lastError
                 (sleeps @ [backoffMs jitter (nat attempt)])) = Inr r
            \<and> (status r \<notin> transient \<or> i = retries)
            \<and> (\<forall>j. attempt + 1 \<le> j \<and> j < i \<longrightarrow>
                  (case fetch (nat j) of Inr rj \<Rightarrow> status rj \<in> transient | Inl e \<Rightarrow> True))"
        then obtain i r where ir: "attempt + 1 \<le> i" "i \<le> retries" "fetch (nat i) = Inr r"
          "fst (fetchWithRetry_loop fetch jitter retries (attempt + 1) lastError
                 (sleeps @ [backoffMs jitter (nat attempt)])) = Inr r"
          "status r \<notin> transient \<or> i = retries"
          "\<forall>j. attempt + 1 \<le> j \<and> j < i \<longrightarrow>
                  (case fetch (nat j) of Inr rj \<Rightarrow> status rj \<in> transient | Inl e \<Rightarrow> True)"
          by blast
        have "\<forall>j. attempt \<le> j \<and> j < i \<longrightarrow>
                  (case fetch (nat j) of Inr rj \<Rightarrow> status rj \<in> transient | Inl e \<Rightarrow> True)"
        proof (intro allI impI)
          fix j assume j: "attempt \<le> j \<and> j < i"
          show "case fetch (nat j) of Inr rj \<Rightarrow> status rj \<in> transient | Inl e \<Rightarrow> True"
          proof (cases "j = attempt")
            case True then show ?thesis using Inr False by simp
          next
            case False then show ?thesis using j ir(6) by auto
          qed
        qed
        then show ?thesis using ir eq by (intro disjI1 exI[of _ i] exI[of _ r]) auto
      next
        assume "\<exists>e. fetch (nat retries) = Inl e
            \<and> fst (fetchWithRetry_loop fetch jitter retries (attempt + 1) lastError
                 (sleeps @ [backoffMs jitter (nat attempt)])) = Inl e"
        then show ?thesis using eq by auto
      qed
    qed
  next
    case (Inl e)
    show ?thesis
    proof (cases "attempt = retries")
      case True
      have "fst (fetchWithRetry_loop fetch jitter retries attempt lastError sleeps) = Inl e"
        using "1.prems" Inl True by (subst fetchWithRetry_loop.simps) auto
      then show ?thesis using Inl True by auto
    next
      case False
      then have lt: "attempt + 1 \<le> retries" "0 \<le> attempt + 1" using "1.prems" by auto
      have eq: "fetchWithRetry_loop fetch jitter retries attempt lastError sleeps
                = fetchWithRetry_loop fetch jitter retries (attempt + 1) (Some e)
                    (sleeps @ [backoffMs jitter (nat attempt)])"
        using "1.prems" Inl False by (subst fetchWithRetry_loop.simps) auto
      from "1.IH"(1)[OF "1.prems"(2) Inl False lt(2) lt(1)] show ?thesis
      proof
        assume "\<exists>i r. attempt + 1 \<le> i \<and> i \<le> retries \<and> fetch (nat i) = Inr r
            \<and> fst (fetchWithRetry_loop fetch jitter retries (attempt + 1) (Some e)
                 (sleeps @ [backoffMs jitter (nat attempt)])) = Inr r
            \<and> (status r \<notin> transient \<or> i = retries)
            \<and> (\<forall>j. attempt + 1 \<le> j \<and> j < i \<longrightarrow>
                  (case fetch (nat j) of Inr rj \<Rightarrow> status rj \<in> transient | Inl e \<Rightarrow> True))"
        then obtain i r where ir: "attempt + 1 \<le> i" "i \<le> retries" "fetch (nat i) = Inr r"
          "fst (fetchWithRetry_loop fetch jitter retries (attempt + 1) (Some e)
                 (sleeps @ [backoffMs jitter (nat attempt)])) = Inr r"
          "status r \<notin> transient \<or> i = retries"
          "\<forall>j. attempt + 1 \<le> j \<and> j < i \<longrightarrow>
                  (case fetch (nat j) of Inr rj \<Rightarrow> status rj \<in> transient | Inl e \<Rightarrow> True)"
          by blast
        have "\<forall>j. attempt \<le> j \<and> j < i \<longrightarrow>
                  (case fetch (nat j) of Inr rj \<Rightarrow> status rj \<in> transient | Inl e \<Rightarrow> True)"
        proof (intro allI impI)
          fix j assume j: "attempt \<le> j \<and> j < i"
          show "case fetch (nat j) of Inr rj \<Rightarrow> status rj \<in> transient | Inl e \<Rightarrow> True"
          proof (cases "j = attempt")
            case True then show ?thesis using Inl by simp
          next
            case False then show ?thesis using j ir(6) by auto
          qed
        qed
        then show ?thesis using ir eq by (intro disjI1 exI[of _ i] exI[of _ r]) auto
      next
        assume "\<exists>e'. fetch (nat retries) = Inl e'
            \<and> fst (fetchWithRetry_loop fetch jitter retries (attempt + 1) (Some e)
                 (sleeps @ [backoffMs jitter (nat attempt)])) = Inl e'"
        then show ?thesis using eq by auto
      qed
    qed
  qed
qed


text \<open>
  Claim C9. Whenever each of the \<open>retries + 1\<close> attempts produces a response,
  \<open>fetchWithRetry\<close> returns a response and does not throw: the response of the first attempt
  whose status is outside the transient set, every earlier attempt having answered with a
  transient status, or the response of the final attempt when all were transient. Whatever
  the outcomes are, an exception leaves \<open>fetchWithRetry\<close> only when it is the one the final
  attempt threw. (\<open>retries\<close> is 3 or 6 at every call site; the statement takes any
  \<open>retries \<ge> 0\<close>.)
\<close>

theorem fetchWithRetry_returns_response:
  assumes "0 \<le> retries"
  shows "((\<forall>i. i \<le> nat retries \<longrightarrow> (\<exists>r. fetch i = Inr r)) \<longrightarrow>
            (\<exists>i r. i \<le> nat retries \<and> fetch i = Inr r
               \<and> fst (fetchWithRetry fetch jitter retries) = Inr r
               \<and> (status r \<notin> transient \<or> i = nat retries)
               \<and> (\<forall>j. j < i \<longrightarrow> (\<exists>rj. fetch j = Inr rj \<and> status rj \<in> transient))))
       \<and> (\<forall>e. fst (fetchWithRetry fetch jitter retries) = Inl e \<longrightarrow> fetch (nat retries) = Inl e)"
proof (intro conjI impI allI)
  assume all: "\<forall>i. i \<le> nat retries \<longrightarrow> (\<exists>r. fetch i = Inr r)"
  then have last: "\<exists>r. fetch (nat retries) = Inr r" by simp
  from fetchWithRetry_loop_result[of 0 retries fetch jitter None "[]"] assms last
  obtain i r where ir: "0 \<le> i" "i \<le> retries" "fetch (nat i) = Inr r"
      "fst (fetchWithRetry fetch jitter retries) = Inr r"
      "status r \<notin> transient \<or> i = retries"
      "\<forall>j. 0 \<le> j \<and> j < i \<longrightarrow>
         (case fetch (nat j) of Inr rj \<Rightarrow> status rj \<in> transient | Inl e \<Rightarrow> True)"
    unfolding fetchWithRetry_def by auto
  have "\<forall>j. j < nat i \<longrightarrow> (\<exists>rj. fetch j = Inr rj \<and> status rj \<in> transient)"
  proof (intro allI impI)
    fix j :: nat assume j: "j < nat i"
    then have "j \<le> nat retries" using ir(2) by linarith
    then obtain rj where rj: "fetch j = Inr rj" using all by blast
    have "0 \<le> int j \<and> int j < i" using j by linarith
    then have "case fetch (nat (int j)) of Inr rj \<Rightarrow> status rj \<in> transient | Inl e \<Rightarrow> True"
      using ir(6) by blast
    then show "\<exists>rj. fetch j = Inr rj \<and> status rj \<in> transient" using rj by simp
  qed
  moreover have "nat i \<le> nat retries" using ir(2) by linarith
  moreover have "status r \<notin> transient \<or> nat i = nat retries" using ir(5) by auto
  ultimately show "\<exists>i r. i \<le> nat retries \<and> fetch i = Inr r
               \<and> fst (fetchWithRetry fetch jitter retries) = Inr r
               \<and> (status r \<notin> transient \<or> i = nat retries)
               \<and> (\<forall>j. j < i \<longrightarrow> (\<exists>rj. fetch j = Inr rj \<and> status rj \<in> transient))"
    using ir(3,4) by blast
next
  fix e assume "fst (fetchWithRetry fetch jitter retries) = Inl e"
  then show "fetch (nat retries) = Inl e"
    using fetchWithRetry_loop_result[of 0 retries fetch jitter None "[]"] assms
    unfolding fetchWithRetry_def by auto
qed

theorem fetchWithRetry_returns_response_witness:
  "fst (fetchWithRetry
          (\<lambda>i. Inr \<lparr>status = (if i < 2 then 503 else 200), headers = [], body = Some ''ok''\<rparr>)
          (\<lambda>i. 7) 3)
   = Inr \<lparr>status = 200, headers = [], body = Some ''ok''\<rparr>"
proof -
  let ?f = "\<lambda>i::nat. (Inr \<lparr>status = (if i < 2 then 503 else 200), headers = [],
                body = Some ''ok''\<rparr> :: error + Response)"
  have "(0::int) \<le> 3" by simp
  from fetchWithRetry_returns_response[OF this, of ?f "\<lambda>i. 7"]
  obtain i r where ir: "?f i = Inr r" "fst (fetchWithRetry ?f (\<lambda>i. 7) 3) = Inr r"
      "status r \<notin> transient \<or> i = nat 3"
      "\<forall>j. j < i \<longrightarrow> (\<exists>rj. ?f j = Inr rj \<and> status rj \<in> transient)"
    by blast
  have "\<not> i < 2" using ir(1,3) by (auto simp: transient_def)
  then have "r = \<lparr>status = 200, headers = [], body = Some ''ok''\<rparr>" using ir(1) by auto
  then show ?thesis using ir(2) by simp
qed

subsection \<open>Errors of the signed request\<close>

lemma safeReadText_take: "safeReadText res = take 300 (case body res of Some t \<Rightarrow> t | None \<Rightarrow> [])"
  by (simp add: safeReadText_def split: option.splits)

lemma signedRequest_not_ok:
  assumes "fst (ensureNonce newNonce client) = Inr n"
    and "sign_jws n = Inr jws"
    and "fst (fetchWithRetry fetch jitter 3) = Inr res"
    and "\<not> ok res"
  shows "fst (signedRequest newNonce sign_jws fetch jitter JSON_parse client url)
           = Inl (AcmeRequestFailed (status res) url (take 2000 (safeReadText res)))"
  using assms unfolding signedRequest_def
  by (cases "ensureNonce newNonce client") (simp add: Let_def)

text \<open>
  Claim C7, as stated, fails on a body of more than 300 characters: the error carries its
  first 300 characters, not its first 2000.
\<close>

theorem signedRequest_error_body_counterexample:
  "fst (signedRequest (Inr ''n0'') (\<lambda>n. Inr some_jws) (\<lambda>i. Inr long_error_response) (\<lambda>i. 0)
          (\<lambda>t. Inr t) \<lparr>nonce = None\<rparr> ''https://ca/new-order'')
     = Inl (AcmeRequestFailed 400 ''https://ca/new-order'' (replicate 300 CHR ''x''))
   \<and> take 2000 (replicate 301 CHR ''x'') \<noteq> replicate 300 CHR ''x''"
proof -
  have f: "fst (fetchWithRetry (\<lambda>i. Inr long_error_response) (\<lambda>i. 0) 3) = Inr long_error_response"
    unfolding fetchWithRetry_def
    by (subst fetchWithRetry_loop.simps) (simp add: long_error_response_def transient_def)
  have e: "fst (ensureNonce (Inr ''n0'') \<lparr>nonce = None\<rparr>) = Inr ''n0''"
    by (simp add: ensureNonce_def)
  have n: "\<not> ok long_error_response" by (simp add: ok_def long_error_response_def)
  have t: "take 2000 (safeReadText long_error_response) = replicate 300 CHR ''x''"
    by (simp add: safeReadText_def long_error_response_def)
  have s: "status long_error_response = 400" by (simp add: long_error_response_def)
  have "length (take 2000 (replicate 301 CHR ''x'')) \<noteq> length (replicate 300 CHR ''x'')"
    by simp
  then have "take 2000 (replicate 301 CHR ''x'') \<noteq> replicate 300 CHR ''x''" by metis
  then show ?thesis
    using e f n
      signedRequest_not_ok[where newNonce="Inr ''n0''" and client="\<lparr>nonce = None\<rparr>" and n="''n0''"
        and sign_jws="\<lambda>n. Inr some_jws" and jws=some_jws and fetch="\<lambda>i. Inr long_error_response"
        and jitter="\<lambda>i. 0" and res=long_error_response and JSON_parse="\<lambda>t. Inr t"
        and url="''https://ca/new-order''"]
    by (simp add: t s)
qed

text \<open>
  Claim C7, amended. When the signed POST is answered (after the retries of \<open>fetchWithRetry\<close>)
  by a response that is not OK, \<open>signedRequest\<close> fails with an error that carries the
  response status, the request URL and the first 300 characters of the response body (the
  whole body when it is shorter, the empty text when the body cannot be read); the later
  cut at 2000 characters changes nothing.
\<close>

theorem signedRequest_error_carries_status_url_body:
  assumes "fst (ensureNonce newNonce client) = Inr n"
    and "sign_jws n = Inr jws"
    and "fst (fetchWithRetry fetch jitter 3) = Inr res"
    and "\<not> ok res"
  shows "\<exists>text. fst (signedRequest newNonce sign_jws fetch jitter JSON_parse client url)
                  = Inl (AcmeRequestFailed (status res) url text)
           \<and> text = take 300 (case body res of Some t \<Rightarrow> t | None \<Rightarrow> [])
           \<and> length text \<le> 300
           \<and> prefix text (case body res of Some t \<Rightarrow> t | None \<Rightarrow> [])"
proof -
  have "take 2000 (safeReadText res) = take 300 (case body res of Some t \<Rightarrow> t | None \<Rightarrow> [])"
    by (simp add: safeReadText_take)
  then show ?thesis
    using assms
      signedRequest_not_ok[where newNonce=newNonce and client=client and n=n
        and sign_jws=sign_jws and jws=jws and fetch=fetch and jitter=jitter and res=res
        and JSON_parse=JSON_parse and url=url]
    by (simp add: take_is_prefix)
qed

theorem signedRequest_error_carries_status_url_body_witness:
  "\<exists>text. fst (signedRequest (Inr ''n0'') (\<lambda>n. Inr some_jws) (\<lambda>i. Inr long_error_response)
                  (\<lambda>i. 0) (\<lambda>t. Inr t) \<lparr>nonce = None\<rparr> ''https://ca/new-order'')
             = Inl (AcmeRequestFailed 400 ''https://ca/new-order'' text)
         \<and> text = replicate 300 CHR ''x''"
proof -
  have f: "fst (fetchWithRetry (\<lambda>i. Inr long_error_response) (\<lambda>i. 0) 3) = Inr long_error_response"
    unfolding fetchWithRetry_def
    by (subst fetchWithRetry_loop.simps) (simp add: long_error_response_def transient_def)
  have e: "fst (ensureNonce (Inr ''n0'') \<lparr>nonce = None\<rparr>) = Inr ''n0''"
    by (simp add: ensureNonce_def)
  have n: "\<not> ok long_error_response" by (simp add: ok_def long_error_response_def)
  from e f n
    signedRequest_error_carries_status_url_body[where newNonce="Inr ''n0''"
      and client="\<lparr>nonce = None\<rparr>" and n="''n0''"
      and sign_jws="\<lambda>n. Inr some_jws" and jws=some_jws and fetch="\<lambda>i. Inr long_error_response"
      and jitter="\<lambda>i. 0" and res=long_error_response and JSON_parse="\<lambda>t. Inr t"
      and url="''https://ca/new-order''"]
  show ?thesis by (simp add: long_error_response_def)
qed

subsection \<open>Polling\<close>

lemma pollAuthorizationValid_loop_bound:
  "attempts \<le> maxAttempts \<Longrightarrow>
   fst (snd (pollAuthorizationValid_loop g now start url t i attempts d sl))
     \<le> i + (maxAttempts + 1 - attempts)
   \<and> length (snd (snd (pollAuthorizationValid_loop g now start url t i attempts d sl)))
     \<le> length sl + (maxAttempts - attempts)"
proof (induction g now start url t i attempts d sl rule: pollAuthorizationValid_loop.induct)
  case (1 g now start url t i attempts d sl)
  show ?case
  proof (cases "g i")
    case (Inl e)
    then show ?thesis using "1.prems" by (subst (1 2) pollAuthorizationValid_loop.simps) auto
  next
    case (Inr authz)
    show ?thesis
    proof (cases "authz_state authz = AuthzValid \<or> authz_state authz = AuthzInvalid
                  \<or> now i - start > t \<or> attempts \<ge> maxAttempts")
      case True
      then show ?thesis using Inr "1.prems"
        by (subst (1 2) pollAuthorizationValid_loop.simps) auto
    next
      case False
      then have a: "authz_state authz \<noteq> AuthzValid" "authz_state authz \<noteq> AuthzInvalid"
        "\<not> now i - start > t" "\<not> attempts \<ge> maxAttempts" by auto
      then have le: "attempts + 1 \<le> maxAttempts" by simp
      have eq: "pollAuthorizationValid_loop g now start url t i attempts d sl
          = pollAuthorizationValid_loop g now start url t (i + 1) (attempts + 1)
              (min (d * 17 div 10) 10000) (sl @ [d])"
        using Inr a by (subst pollAuthorizationValid_loop.simps) simp
      show ?thesis using "1.IH"[OF Inr a le] le unfolding eq by auto
    qed
  qed
qed

lemma pollAuthorizationValid_bound:
  "fst (snd (pollAuthorizationValid g now start url t)) \<le> 13
   \<and> length (snd (snd (pollAuthorizationValid g now start url t))) \<le> 12"
  using pollAuthorizationValid_loop_bound[of 0 g now start url t 0 2000 "[]"]
  by (simp add: pollAuthorizationValid_def maxAttempts_def)

lemma pollOrderValid_loop_bound:
  "attempts \<le> maxAttempts \<Longrightarrow>
   fst (snd (pollOrderValid_loop g now start url t i attempts d sl))
     \<le> i + (maxAttempts + 1 - attempts)
   \<and> length (snd (snd (pollOrderValid_loop g now start url t i attempts d sl)))
     \<le> length sl + (maxAttempts - attempts)"
proof (induction g now start url t i attempts d sl rule: pollOrderValid_loop.induct)
  case (1 g now start url t i attempts d sl)
  show ?case
  proof (cases "g i")
    case (Inl e)
    then show ?thesis using "1.prems" by (subst (1 2) pollOrderValid_loop.simps) auto
  next
    case (Inr order)
    show ?thesis
    proof (cases "order_state order = OrderValid \<or> order_state order = OrderInvalid
                  \<or> now i - start > t \<or> attempts \<ge> maxAttempts")
      case True
      then show ?thesis using Inr "1.prems"
        by (subst (1 2) pollOrderValid_loop.simps) auto
    next
      case False
      then have a: "order_state order \<noteq> OrderValid" "order_state order \<noteq> OrderInvalid"
        "\<not> now i - start > t" "\<not> attempts \<ge> maxAttempts" by auto
      then have le: "attempts + 1 \<le> maxAttempts" by simp
      have eq: "pollOrderValid_loop g now start url t i attempts d sl
          = pollOrderValid_loop g now start url t (i + 1) (attempts + 1)
              (min (d * 17 div 10) 10000) (sl @ [d])"
        using Inr a by (subst pollOrderValid_loop.simps) simp
      show ?thesis using "1.IH"[OF Inr a le] le unfolding eq by auto
    qed
  qed
qed

lemma pollOrderValid_bound:
  "fst (snd (pollOrderValid g now start url t)) \<le> 13
   \<and> length (snd (snd (pollOrderValid g now start url t))) \<le> 12"
  using pollOrderValid_loop_bound[of 0 g now start url t 0 2000 "[]"]
  by (simp add: pollOrderValid_def maxAttempts_def)

text \<open>
  Claim C4 on the code. The polling loops end after at most 13 requests for every server and
  every clock (this is the termination proof of the two functions, and the bound above), but
  the bound is 13 requests, not 12: with a clock that stays inside the budget, a server that
  keeps the authorization (the order) pending is asked 13 times before the loop fails for
  its attempts, after the twelve sleeps 2000, 3400, 5780, 9826, 10000, ...; and a server
  that answers \<open>valid\<close> to the thirteenth request only makes the loop succeed.
\<close>

theorem poll_thirteenth_request:
  "pollAuthorizationValid (\<lambda>i. Inr pending_authz) (\<lambda>i. 0) 0 ''authz'' 120000
     = (Inl (AcmeAuthorizationPollExceeded ''authz''), 13, backoff_schedule)
   \<and> pollAuthorizationValid (\<lambda>i. Inr (if i < 12 then pending_authz else valid_authz)) (\<lambda>i. 0) 0
       ''authz'' 120000
     = (Inr (), 13, backoff_schedule)
   \<and> pollOrderValid (\<lambda>i. Inr pending_order) (\<lambda>i. 0) 0 ''order'' 180000
     = (Inl (AcmeOrderPollExceeded ''order''), 13, backoff_schedule)
   \<and> pollOrderValid (\<lambda>i. Inr (if i < 12 then pending_order else valid_order)) (\<lambda>i. 0) 0
       ''order'' 180000
     = (Inr valid_order, 13, backoff_schedule)"
proof -
  have a: "pollAuthorizationValid (\<lambda>i. Inr pending_authz) (\<lambda>i. 0) 0 ''authz'' 120000
     = (Inl (AcmeAuthorizationPollExceeded ''authz''), 13, backoff_schedule)"
    by (simp add: pollAuthorizationValid_def pollAuthorizationValid_loop.simps pending_authz_def
          maxAttempts_def backoff_schedule_def)
  have b: "pollAuthorizationValid (\<lambda>i. Inr (if i < 12 then pending_authz else valid_authz))
       (\<lambda>i. 0) 0 ''authz'' 120000 = (Inr (), 13, backoff_schedule)"
    by (simp add: pollAuthorizationValid_def pollAuthorizationValid_loop.simps pending_authz_def
          valid_authz_def maxAttempts_def backoff_schedule_def)
  have c: "pollOrderValid (\<lambda>i. Inr pending_order) (\<lambda>i. 0) 0 ''order'' 180000
     = (Inl (AcmeOrderPollExceeded ''order''), 13, backoff_schedule)"
    by (simp add: pollOrderValid_def pollOrderValid_loop.simps pending_order_def
          maxAttempts_def backoff_schedule_def)
  have d: "pollOrderValid (\<lambda>i. Inr (if i < 12 then pending_order else valid_order)) (\<lambda>i. 0) 0
       ''order'' 180000 = (Inr valid_order, 13, backoff_schedule)"
    by (simp add: pollOrderValid_def pollOrderValid_loop.simps pending_order_def
          valid_order_def maxAttempts_def backoff_schedule_def)
  show ?thesis using a b c d by (intro conjI)
qed

subsection \<open>Idempotent creation of TXT records\<close>


















subsection \<open>The DNS-01 TXT value\<close>

lemma split_mod_mult: "r < k \<Longrightarrow> (a * k + r) mod (m * k) = a mod m * k + (r::nat)"
proof -
  assume r: "r < k"
  have "(a * k + r) mod (m * k) = (r + k * a) mod (k * m)" by (simp add: ac_simps)
  also have "\<dots> = r + k * (a mod m)"
    using r by (simp add: mod_mult2_eq)
  finally show ?thesis by (simp add: ac_simps)
qed

lemma g3_1: "b < 256 \<Longrightarrow> c < 256 \<Longrightarrow> (a * 65536 + b * 256 + c) div 262144 = (a::nat) div 4"
proof -
  assume b: "b < 256" and c: "c < 256"
  have r: "b * 256 + c < 65536" using b c by simp
  have "(a * 65536 + b * 256 + c) div 262144 = (a * 65536 + (b * 256 + c)) div 65536 div 4"
    by (simp add: div_mult2_eq[symmetric] add.assoc)
  also have "\<dots> = a div 4" using r by simp
  finally show ?thesis .
qed

lemma g3_2: "b < 256 \<Longrightarrow> c < 256 \<Longrightarrow> (a * 65536 + b * 256 + c) div 4096 mod 64 = (a::nat) mod 4 * 16 + b div 16"
proof -
  assume b: "b < 256" and c: "c < 256"
  have "(a * 65536 + b * 256 + c) div 4096 = ((a * 256 + b) * 256 + c) div 256 div 16"
    by (simp add: div_mult2_eq[symmetric] algebra_simps)
  also have "\<dots> = (a * 256 + b) div 16" using c by simp
  also have "\<dots> = (a * 16) + b div 16"
  proof -
    have "a * 256 + b = b + 16 * (a * 16)" by simp
    then show ?thesis by (simp only: div_mult_self2)
  qed
  finally have e: "(a * 65536 + b * 256 + c) div 4096 = a * 16 + b div 16" .
  have "b div 16 < 16" using b by (simp add: less_mult_imp_div_less)
  from split_mod_mult[OF this, of a 4] show ?thesis unfolding e by simp
qed

lemma g3_3: "b < 256 \<Longrightarrow> c < 256 \<Longrightarrow> (a * 65536 + b * 256 + c) div 64 mod 64 = (b::nat) mod 16 * 4 + c div 64"
proof -
  assume b: "b < 256" and c: "c < 256"
  have "a * 65536 + b * 256 + c = c + 64 * (a * 1024 + b * 4)" by simp
  then have e: "(a * 65536 + b * 256 + c) div 64 = c div 64 + (a * 1024 + b * 4)"
    by (simp only: div_mult_self2)
  have c4: "c div 64 < 4" using c by (simp add: less_mult_imp_div_less)
  have "(c div 64 + (a * 1024 + b * 4)) mod 64 = ((a * 16) * 64 + (b * 4 + c div 64)) mod 64"
    by (simp add: algebra_simps)
  also have "\<dots> = (b * 4 + c div 64) mod 64" by (simp only: mod_mult_self3)
  also have "\<dots> = b mod 16 * 4 + c div 64"
    using split_mod_mult[OF c4, of b 16] by simp
  finally show ?thesis unfolding e .
qed

lemma g3_4: "(a * 65536 + b * 256 + c) mod 64 = (c::nat) mod 64"
proof -
  have "a * 65536 + b * 256 + c = (a * 1024 + b * 4) * 64 + c" by simp
  then show ?thesis by (simp only: mod_mult_self3)
qed

lemma g2_1: "b < 256 \<Longrightarrow> ((a * 256 + b) * 4) div 4096 = (a::nat) div 4"
proof -
  assume b: "b < 256"
  have "((a * 256 + b) * 4) div 4096 = ((a * 256 + b) * 4) div 4 div 256 div 4"
    by (simp only: div_mult2_eq[symmetric]) simp
  also have "\<dots> = a div 4" using b by simp
  finally show ?thesis .
qed

lemma g2_2: "b < 256 \<Longrightarrow> ((a * 256 + b) * 4) div 64 mod 64 = (a::nat) mod 4 * 16 + b div 16"
proof -
  assume b: "b < 256"
  have "((a * 256 + b) * 4) div 64 = ((a * 256 + b) * 4) div 4 div 16"
    by (simp only: div_mult2_eq[symmetric]) simp
  also have "\<dots> = (a * 256 + b) div 16" by simp
  also have "\<dots> = (a * 16) + b div 16"
  proof -
    have "a * 256 + b = b + 16 * (a * 16)" by simp
    then show ?thesis by (simp only: div_mult_self2)
  qed
  finally have e: "((a * 256 + b) * 4) div 64 = a * 16 + b div 16" .
  have "b div 16 < 16" using b by (simp add: less_mult_imp_div_less)
  from split_mod_mult[OF this, of a 4] show ?thesis unfolding e by simp
qed

lemma g2_3: "((a * 256 + b) * 4) mod 64 = (b::nat) mod 16 * 4"
proof -
  have "((a * 256 + b) * 4) = (a * 16) * 64 + b * 4" by simp
  then have "((a * 256 + b) * 4) mod 64 = (b * 4) mod 64" by (simp only: mod_mult_self3)
  also have "\<dots> = b mod 16 * 4" using split_mod_mult[of 0 4 b 16] by simp
  finally show ?thesis .
qed

lemma g1_1: "(a * 16) div 64 = (a::nat) div 4"
proof -
  have "(a * 16) div 64 = (a * 16) div 16 div 4" by (simp only: div_mult2_eq[symmetric]) simp
  then show ?thesis by simp
qed

lemma g1_2: "(a * 16) mod 64 = (a::nat) mod 4 * 16"
  using split_mod_mult[of 0 16 a 4] by simp

lemma sextets_alt:
  "sextets [a] = [unat a div 4, unat a mod 4 * 16]"
  "sextets [a, b] =
     [unat a div 4, unat a mod 4 * 16 + unat b div 16, unat b mod 16 * 4]"
  "sextets (a # b # c # rest) =
     [unat a div 4, unat a mod 4 * 16 + unat b div 16,
      unat b mod 16 * 4 + unat c div 64, unat c mod 64] @ sextets rest"
  by (simp_all only: sextets.simps g1_1 g1_2 g2_1[OF byte_lt] g2_2[OF byte_lt] g2_3
        g3_1[OF byte_lt byte_lt] g3_2[OF byte_lt byte_lt] g3_3[OF byte_lt byte_lt] g3_4)

lemma sextets_enc: "map b64_char (sextets bs) = enc bs"
proof (induction bs rule: enc.induct)
  case 1
  show ?case by simp
next
  case (2 a)
  show ?case by (simp only: sextets_alt enc.simps list.map)
next
  case (3 a b)
  show ?case by (simp only: sextets_alt enc.simps list.map)
next
  case (4 a b c rest)
  show ?case by (simp only: sextets_alt enc.simps list.map map_append "4.IH")
qed

lemma sextets_lt: "\<forall>i \<in> set (sextets bs). i < 64"
proof (induction bs rule: enc.induct)
  case 1
  show ?case by simp
next
  case (2 a)
  show ?case unfolding sextets_alt by (simp add: sextet_bounds)
next
  case (3 a b)
  show ?case unfolding sextets_alt by (simp add: sextet_bounds)
next
  case (4 a b c rest)
  show ?case unfolding sextets_alt using "4.IH" by (simp add: sextet_bounds)
qed

lemma alphabet_table:
  "\<forall>i \<in> set [0..<64]. to_url (b64_char i) = base64url_alphabet ! i"
  by code_simp

lemma to_url_b64_char: "i < 64 \<Longrightarrow> to_url (b64_char i) = base64url_alphabet ! i"
  using alphabet_table by simp

lemma base64UrlEncode_rfc4648: "base64UrlEncode bs = base64url_rfc4648 bs"
proof -
  have "map to_url (enc bs) = map (\<lambda>i. to_url (b64_char i)) (sextets bs)"
    by (simp add: sextets_enc[symmetric])
  also have "\<dots> = map (\<lambda>i. base64url_alphabet ! i) (sextets bs)"
    using sextets_lt[of bs] by (intro map_cong refl) (simp add: to_url_b64_char)
  finally show ?thesis by (simp add: base64UrlEncode_enc base64url_rfc4648_def)
qed

lemma utf8_code_unit_table: "\<forall>c::char. utf8_code_unit c = utf8_rfc3629_char c"
  by code_simp

lemma utf8_code_unit_rfc3629: "utf8_code_unit = utf8_rfc3629_char"
  using utf8_code_unit_table by (intro ext) simp

lemma utf8ToBytes_rfc3629: "utf8ToBytes s = utf8_rfc3629 s"
  by (simp add: utf8ToBytes_def utf8_rfc3629_def utf8_code_unit_rfc3629)

lemma json_quote_name:
  "json_quote ''crv'' = [DQ] @ ''crv'' @ [DQ]" "json_quote ''kty'' = [DQ] @ ''kty'' @ [DQ]"
  "json_quote ''x'' = [DQ] @ ''x'' @ [DQ]" "json_quote ''y'' = [DQ] @ ''y'' @ [DQ]"
  by (simp_all add: json_quote_def json_escape_char_def DQ_def BACKSLASH_def)

lemma json_escape_plain:
  "c \<noteq> DQ \<Longrightarrow> c \<noteq> BACKSLASH \<Longrightarrow> 0x20 \<le> (of_char c :: nat) \<Longrightarrow> json_escape_char c = [c]"
  by (auto simp: json_escape_char_def)

lemma json_quote_plain: "plain s \<Longrightarrow> json_quote s = [DQ] @ s @ [DQ]"
proof -
  assume "plain s"
  then have "concat (map json_escape_char s) = s"
    by (induction s) (simp_all add: plain_def json_escape_plain)
  then show ?thesis by (simp add: json_quote_def)
qed

lemma JSON_stringify_canonical:
  assumes "get_prop jwk ''crv'' = Some crv" "get_prop jwk ''kty'' = Some kty"
    "get_prop jwk ''x'' = Some x" "get_prop jwk ''y'' = Some y"
  shows "JSON_stringify_object (canonicalizeJwk jwk) = canonical_jwk_json crv kty x y"
  by (simp add: JSON_stringify_object_def canonicalizeJwk_def assms canonical_jwk_json_def
        json_quote_name)

lemma jwkThumbprint_spec:
  assumes "get_prop jwk ''crv'' = Some crv" "get_prop jwk ''kty'' = Some kty"
    "get_prop jwk ''x'' = Some x" "get_prop jwk ''y'' = Some y"
  shows "jwkThumbprintBase64Url sha256 jwk = thumbprint_spec sha256 crv kty x y"
  using JSON_stringify_canonical[OF assms]
  by (simp add: jwkThumbprintBase64Url_def thumbprint_spec_def Let_def
        base64UrlEncode_rfc4648 utf8ToBytes_rfc3629)

lemma computeDns01TxtValue_spec:
  assumes "get_prop jwk ''crv'' = Some crv" "get_prop jwk ''kty'' = Some kty"
    "get_prop jwk ''x'' = Some x" "get_prop jwk ''y'' = Some y"
  shows "computeDns01TxtValue sha256 jwk t = dns01_txt_spec sha256 crv kty x y t"
  using jwkThumbprint_spec[OF assms, of sha256]
  by (simp add: computeDns01TxtValue_def dns01_txt_spec_def Let_def
        base64UrlEncode_rfc4648 utf8ToBytes_rfc3629)

text \<open>
  Claim C1. For a JWK with members crv, kty, x, y (in any position, among any other members)
  and a token \<open>t\<close>, \<open>computeDns01TxtValue\<close> is
  \<open>base64url(SHA-256(t || '.' || thumbprint))\<close>, the thumbprint being the base64url SHA-256 of
  the JSON text of the four members in the order crv, kty, x, y, without whitespace (spelled
  out for values that need no JSON escape); base64url and the bytes of a text are those of
  RFC 4648 and RFC 3629. The result is the same for every JWK with these four values, in
  particular for every reordering of the members.
\<close>

theorem computeDns01TxtValue_formula:
  assumes "get_prop jwk ''crv'' = Some crv" "get_prop jwk ''kty'' = Some kty"
    "get_prop jwk ''x'' = Some x" "get_prop jwk ''y'' = Some y"
  shows "computeDns01TxtValue sha256 jwk t
           = base64url_rfc4648 (sha256 (utf8_rfc3629
               (t @ ''.'' @ base64url_rfc4648
                  (sha256 (utf8_rfc3629 (canonical_jwk_json crv kty x y))))))
       \<and> jwkThumbprintBase64Url sha256 jwk
           = base64url_rfc4648 (sha256 (utf8_rfc3629 (canonical_jwk_json crv kty x y)))
       \<and> (plain crv \<and> plain kty \<and> plain x \<and> plain y \<longrightarrow>
            canonical_jwk_json crv kty x y =
              ''{'' @ [DQ] @ ''crv'' @ [DQ] @ '':'' @ [DQ] @ crv @ [DQ] @ '',''
                    @ [DQ] @ ''kty'' @ [DQ] @ '':'' @ [DQ] @ kty @ [DQ] @ '',''
                    @ [DQ] @ ''x'' @ [DQ] @ '':'' @ [DQ] @ x @ [DQ] @ '',''
                    @ [DQ] @ ''y'' @ [DQ] @ '':'' @ [DQ] @ y @ [DQ] @ ''}'')
       \<and> (\<forall>jwk'. get_prop jwk' ''crv'' = Some crv \<and> get_prop jwk' ''kty'' = Some kty
               \<and> get_prop jwk' ''x'' = Some x \<and> get_prop jwk' ''y'' = Some y
               \<longrightarrow> computeDns01TxtValue sha256 jwk' t = computeDns01TxtValue sha256 jwk t)
       \<and> (\<forall>jwk'. distinct (map fst jwk) \<and> distinct (map fst jwk') \<and> set jwk' = set jwk
               \<longrightarrow> computeDns01TxtValue sha256 jwk' t = computeDns01TxtValue sha256 jwk t)"
proof -
  have formula: "computeDns01TxtValue sha256 j t = dns01_txt_spec sha256 crv kty x y t"
    if "get_prop j ''crv'' = Some crv" "get_prop j ''kty'' = Some kty"
       "get_prop j ''x'' = Some x" "get_prop j ''y'' = Some y" for j
    using that by (rule computeDns01TxtValue_spec)
  have perm: "get_prop jwk' k = get_prop jwk k"
    if "distinct (map fst jwk)" "distinct (map fst jwk')" "set jwk' = set jwk" for jwk' k
    using that map_of_inject_set[of jwk' jwk] by (simp add: get_prop_def)
  show ?thesis
  proof (intro conjI allI impI)
    show "computeDns01TxtValue sha256 jwk t
           = base64url_rfc4648 (sha256 (utf8_rfc3629
               (t @ ''.'' @ base64url_rfc4648
                  (sha256 (utf8_rfc3629 (canonical_jwk_json crv kty x y))))))"
      using formula[OF assms] by (simp add: dns01_txt_spec_def thumbprint_spec_def)
  next
    show "jwkThumbprintBase64Url sha256 jwk
           = base64url_rfc4648 (sha256 (utf8_rfc3629 (canonical_jwk_json crv kty x y)))"
      using jwkThumbprint_spec[OF assms, of sha256] by (simp add: thumbprint_spec_def)
  next
    assume "plain crv \<and> plain kty \<and> plain x \<and> plain y"
    then show "canonical_jwk_json crv kty x y =
              ''{'' @ [DQ] @ ''crv'' @ [DQ] @ '':'' @ [DQ] @ crv @ [DQ] @ '',''
                    @ [DQ] @ ''kty'' @ [DQ] @ '':'' @ [DQ] @ kty @ [DQ] @ '',''
                    @ [DQ] @ ''x'' @ [DQ] @ '':'' @ [DQ] @ x @ [DQ] @ '',''
                    @ [DQ] @ ''y'' @ [DQ] @ '':'' @ [DQ] @ y @ [DQ] @ ''}''"
      by (simp add: canonical_jwk_json_def json_quote_plain)
  next
    fix jwk'
    assume "get_prop jwk' ''crv'' = Some crv \<and> get_prop jwk' ''kty'' = Some kty
               \<and> get_prop jwk' ''x'' = Some x \<and> get_prop jwk' ''y'' = Some y"
    then show "computeDns01TxtValue sha256 jwk' t = computeDns01TxtValue sha256 jwk t"
      using formula[of jwk'] formula[OF assms] by simp
  next
    fix jwk'
    assume a: "distinct (map fst jwk) \<and> distinct (map fst jwk') \<and> set jwk' = set jwk"
    have "get_prop jwk' ''crv'' = Some crv" "get_prop jwk' ''kty'' = Some kty"
         "get_prop jwk' ''x'' = Some x" "get_prop jwk' ''y'' = Some y"
      using a perm[of jwk'] assms by simp_all
    then show "computeDns01TxtValue sha256 jwk' t = computeDns01TxtValue sha256 jwk t"
      using formula[of jwk'] formula[OF assms] by simp
  qed
qed

text \<open>With the identity in place of SHA-256 the encoded text shows the bytes that are
  hashed: the thumbprint of \<open>example_jwk\<close> is the base64url text of its canonical JSON, and
  the TXT values for the tokens \<open>tok\<close> and \<open>U+00E9\<close> (two bytes in UTF-8) are the base64url
  texts of the token, a full stop and that thumbprint.\<close>

theorem computeDns01TxtValue_formula_witness:
  "computeDns01TxtValue (\<lambda>bs. bs) example_jwk ''tok''
     = ''dG9rLmV5SmpjbllpT2lKUUxUSTFOaUlzSW10MGVTSTZJa1ZESWl3aWVDSTZJbVZJWnlJc0lua2lPaUpsV0dzaWZR''
   \<and> computeDns01TxtValue (\<lambda>bs. bs) example_jwk [CHR 0xE9]
     = ''w6kuZXlKamNuWWlPaUpRTFRJMU5pSXNJbXQwZVNJNklrVkRJaXdpZUNJNkltVklaeUlzSW5raU9pSmxXR3NpZlE''
   \<and> jwkThumbprintBase64Url (\<lambda>bs. bs) example_jwk
     = ''eyJjcnYiOiJQLTI1NiIsImt0eSI6IkVDIiwieCI6ImVIZyIsInkiOiJlWGsifQ''
   \<and> computeDns01TxtValue (\<lambda>bs. bs) (rev example_jwk) ''tok''
     = computeDns01TxtValue (\<lambda>bs. bs) example_jwk ''tok''
   \<and> canonical_jwk_json ''P-256'' ''EC'' ''eHg'' ''eXk''
     = ''{'' @ [DQ] @ ''crv'' @ [DQ] @ '':'' @ [DQ] @ ''P-256'' @ [DQ] @ '',''
             @ [DQ] @ ''kty'' @ [DQ] @ '':'' @ [DQ] @ ''EC'' @ [DQ] @ '',''
             @ [DQ] @ ''x'' @ [DQ] @ '':'' @ [DQ] @ ''eHg'' @ [DQ] @ '',''
             @ [DQ] @ ''y'' @ [DQ] @ '':'' @ [DQ] @ ''eXk'' @ [DQ] @ ''}''"
proof -
  have g: "get_prop example_jwk ''crv'' = Some ''P-256''" "get_prop example_jwk ''kty'' = Some ''EC''"
    "get_prop example_jwk ''x'' = Some ''eHg''" "get_prop example_jwk ''y'' = Some ''eXk''"
    by (simp_all add: get_prop_def example_jwk_def)
  have p: "plain ''P-256'' \<and> plain ''EC'' \<and> plain ''eHg'' \<and> plain ''eXk''"
    by (simp add: plain_def DQ_def BACKSLASH_def)
  have "distinct (map fst example_jwk)" by (simp add: example_jwk_def)
  then have d: "distinct (map fst example_jwk) \<and> distinct (map fst (rev example_jwk))
           \<and> set (rev example_jwk) = set example_jwk"
    by (simp add: rev_map[symmetric])
  have th: "base64url_rfc4648 (utf8_rfc3629 (canonical_jwk_json ''P-256'' ''EC'' ''eHg'' ''eXk''))
      = ''eyJjcnYiOiJQLTI1NiIsImt0eSI6IkVDIiwieCI6ImVIZyIsInkiOiJlWGsifQ''"
    by (simp add: utf8_rfc3629_def utf8_rfc3629_char_def base64url_rfc4648_def
          base64url_alphabet_def canonical_jwk_json_def json_quote_def json_escape_char_def
          DQ_def BACKSLASH_def)
  have v1: "base64url_rfc4648 (utf8_rfc3629 (''tok'' @ ''.''
              @ ''eyJjcnYiOiJQLTI1NiIsImt0eSI6IkVDIiwieCI6ImVIZyIsInkiOiJlWGsifQ''))
      = ''dG9rLmV5SmpjbllpT2lKUUxUSTFOaUlzSW10MGVTSTZJa1ZESWl3aWVDSTZJbVZJWnlJc0lua2lPaUpsV0dzaWZR''"
    by (simp add: utf8_rfc3629_def utf8_rfc3629_char_def base64url_rfc4648_def
          base64url_alphabet_def canonical_jwk_json_def json_quote_def json_escape_char_def
          DQ_def BACKSLASH_def)
  have v2: "base64url_rfc4648 (utf8_rfc3629 ([CHR 0xE9] @ ''.''
              @ ''eyJjcnYiOiJQLTI1NiIsImt0eSI6IkVDIiwieCI6ImVIZyIsInkiOiJlWGsifQ''))
      = ''w6kuZXlKamNuWWlPaUpRTFRJMU5pSXNJbXQwZVNJNklrVkRJaXdpZUNJNkltVklaeUlzSW5raU9pSmxXR3NpZlE''"
    by (simp add: utf8_rfc3629_def utf8_rfc3629_char_def base64url_rfc4648_def
          base64url_alphabet_def canonical_jwk_json_def json_quote_def json_escape_char_def
          DQ_def BACKSLASH_def)
  note t1 = computeDns01TxtValue_formula[OF g, of "\<lambda>bs. bs" "''tok''"]
  note t2 = computeDns01TxtValue_formula[OF g, of "\<lambda>bs. bs" "[CHR 0xE9]"]
  have 1: "computeDns01TxtValue (\<lambda>bs. bs) example_jwk ''tok''
     = ''dG9rLmV5SmpjbllpT2lKUUxUSTFOaUlzSW10MGVTSTZJa1ZESWl3aWVDSTZJbVZJWnlJc0lua2lPaUpsV0dzaWZR''"
    using t1[THEN conjunct1] by (simp only: th v1)
  have 2: "computeDns01TxtValue (\<lambda>bs. bs) example_jwk [CHR 0xE9]
     = ''w6kuZXlKamNuWWlPaUpRTFRJMU5pSXNJbXQwZVNJNklrVkRJaXdpZUNJNkltVklaeUlzSW5raU9pSmxXR3NpZlE''"
    using t2[THEN conjunct1] by (simp only: th v2)
  have 3: "jwkThumbprintBase64Url (\<lambda>bs. bs) example_jwk
     = ''eyJjcnYiOiJQLTI1NiIsImt0eSI6IkVDIiwieCI6ImVIZyIsInkiOiJlWGsifQ''"
    using t1[THEN conjunct2, THEN conjunct1] by (simp only: th)
  have 4: "computeDns01TxtValue (\<lambda>bs. bs) (rev example_jwk) ''tok''
     = computeDns01TxtValue (\<lambda>bs. bs) example_jwk ''tok''"
    using t1 d by blast
  have 5: "canonical_jwk_json ''P-256'' ''EC'' ''eHg'' ''eXk''
     = ''{'' @ [DQ] @ ''crv'' @ [DQ] @ '':'' @ [DQ] @ ''P-256'' @ [DQ] @ '',''
             @ [DQ] @ ''kty'' @ [DQ] @ '':'' @ [DQ] @ ''EC'' @ [DQ] @ '',''
             @ [DQ] @ ''x'' @ [DQ] @ '':'' @ [DQ] @ ''eHg'' @ [DQ] @ '',''
             @ [DQ] @ ''y'' @ [DQ] @ '':'' @ [DQ] @ ''eXk'' @ [DQ] @ ''}''"
    using t1 p by blast
  show ?thesis using 1 2 3 4 5 by (intro conjI)
qed

subsection \<open>The renewal decision\<close>

lemma parseIntEnv_cases:
  "(parseInt (case v of None \<Rightarrow> [] | Some s \<Rightarrow> s) = None \<longrightarrow> parseIntEnv parseInt v fallback = fallback)
   \<and> (\<forall>n. parseInt (case v of None \<Rightarrow> [] | Some s \<Rightarrow> s) = Some n \<longrightarrow> parseIntEnv parseInt v fallback = n)"
  by (simp add: parseIntEnv_def)

lemma loadCachedCert_Some:
  "loadCachedCert kv_get JSON_parse domain = Some v
   \<longleftrightarrow> (\<exists>raw. kv_get (''cert:'' @ toLowerCase domain) = Some raw \<and> raw \<noteq> []
              \<and> JSON_parse raw = Some v)"
  by (cases "kv_get (''cert:'' @ toLowerCase domain)") (simp_all add: loadCachedCert_def certKey_def)

lemma cache_fresh_hit:
  "cache_fresh kv_get JSON_parse truthy notAfterTime now renewBeforeDays domain
   \<longleftrightarrow> (\<exists>v t. loadCachedCert kv_get JSON_parse domain = Some v \<and> truthy v
              \<and> notAfterTime v = Some t \<and> renewBeforeDays \<le> daysUntil t now)"
proof (cases "kv_get (''cert:'' @ toLowerCase domain)")
  case None
  then show ?thesis by (simp add: cache_fresh_def loadCachedCert_def certKey_def)
next
  case (Some raw)
  show ?thesis
  proof (cases "raw = []")
    case True
    then show ?thesis using Some by (simp add: cache_fresh_def loadCachedCert_def certKey_def)
  next
    case ne: False
    show ?thesis
    proof (cases "JSON_parse raw")
      case None
      then show ?thesis using Some ne by (simp add: cache_fresh_def loadCachedCert_def certKey_def)
    next
      case v: (Some v)
      have l: "loadCachedCert kv_get JSON_parse domain = Some v"
        using Some v ne by (simp add: loadCachedCert_def certKey_def)
      show ?thesis
      proof (cases "notAfterTime v")
        case None
        then show ?thesis using Some v l ne by (simp add: cache_fresh_def)
      next
        case t: (Some t)
        then show ?thesis using Some v l ne by (simp add: cache_fresh_def daysUntil_def)
      qed
    qed
  qed
qed

lemma issue_outcome_not_cached:
  "issue_outcome toISOString now obtained domain = Inr m \<Longrightarrow> \<not> cached_flag m"
proof (cases obtained)
  case (Inl e)
  assume "issue_outcome toISOString now obtained domain = Inr m"
  then show ?thesis using Inl by (simp add: issue_outcome_def)
next
  case (Inr ob)
  assume "issue_outcome toISOString now obtained domain = Inr m"
  then have "m = Issued \<lparr>cc_domain = domain, cc_certPem = oc_certPem ob,
                       cc_keyPem = oc_keyPem ob,
                       cc_notAfterIso = toISOString (oc_notAfter ob),
                       cc_provider = oc_provider ob,
                       cc_updatedAtIso = toISOString now\<rparr>"
    using Inr by (simp add: issue_outcome_def)
  then show ?thesis by (simp add: cached_flag_def)
qed

lemma getOrRenew_no_token:
  assumes "CF_API_TOKEN env = None \<or> CF_API_TOKEN env = Some []"
  shows "getOrRenewCertificateMaterial parseInt kv_get JSON_parse truthy notAfterTime now
                 toISOString obtained env providers zoneMap domain = Inl MissingCfApiToken"
  using assms by (simp add: getOrRenewCertificateMaterial_def Let_def)

lemma getOrRenew_no_providers:
  assumes "CF_API_TOKEN env \<noteq> None" "CF_API_TOKEN env \<noteq> Some []" "providers = []"
  shows "getOrRenewCertificateMaterial parseInt kv_get JSON_parse truthy notAfterTime now
                 toISOString obtained env providers zoneMap domain = Inl MissingCaProviders"
  using assms by (simp add: getOrRenewCertificateMaterial_def Let_def)

lemma getOrRenew_checked:
  assumes "CF_API_TOKEN env \<noteq> None" "CF_API_TOKEN env \<noteq> Some []" "providers \<noteq> []"
    "zoneMap \<noteq> []"
  shows "getOrRenewCertificateMaterial parseInt kv_get JSON_parse truthy notAfterTime now
                 toISOString obtained env providers zoneMap domain
         = (case loadCachedCert kv_get JSON_parse domain of
              None \<Rightarrow> issue_outcome toISOString now obtained domain
            | Some cached \<Rightarrow>
                if truthy cached
                then (case notAfterTime cached of
                        None \<Rightarrow> issue_outcome toISOString now obtained domain
                      | Some notAfter \<Rightarrow>
                          if daysUntil notAfter now \<ge> parseIntEnv parseInt (RENEW_BEFORE_DAYS env) 30
                          then Inr (FromCache cached)
                          else issue_outcome toISOString now obtained domain)
                else issue_outcome toISOString now obtained domain)"
proof -
  obtain tok where t: "CF_API_TOKEN env = Some tok" "tok \<noteq> []"
    using assms(1,2) by (cases "CF_API_TOKEN env") auto
  show ?thesis using t assms(3,4)
    by (simp add: getOrRenewCertificateMaterial_def Let_def issue_outcome_def
          cong: option.case_cong if_cong)
qed

lemma getOrRenew_hit:
  assumes "CF_API_TOKEN env \<noteq> None" "CF_API_TOKEN env \<noteq> Some []" "providers \<noteq> []"
    "zoneMap \<noteq> []"
    and "loadCachedCert kv_get JSON_parse domain = Some v" "truthy v" "notAfterTime v = Some t"
    and "parseIntEnv parseInt (RENEW_BEFORE_DAYS env) 30 \<le> daysUntil t now"
  shows "getOrRenewCertificateMaterial parseInt kv_get JSON_parse truthy notAfterTime now
                 toISOString obtained env providers zoneMap domain = Inr (FromCache v)"
  using assms(5-8) by (simp add: getOrRenew_checked[OF assms(1-4)])

lemma getOrRenew_miss:
  assumes "CF_API_TOKEN env \<noteq> None" "CF_API_TOKEN env \<noteq> Some []" "providers \<noteq> []"
    "zoneMap \<noteq> []"
    and "\<not> (\<exists>v t. loadCachedCert kv_get JSON_parse domain = Some v \<and> truthy v
              \<and> notAfterTime v = Some t
              \<and> parseIntEnv parseInt (RENEW_BEFORE_DAYS env) 30 \<le> daysUntil t now)"
  shows "getOrRenewCertificateMaterial parseInt kv_get JSON_parse truthy notAfterTime now
                 toISOString obtained env providers zoneMap domain
         = issue_outcome toISOString now obtained domain"
proof (cases "loadCachedCert kv_get JSON_parse domain")
  case None
  then show ?thesis by (simp add: getOrRenew_checked[OF assms(1-4)])
next
  case (Some v)
  show ?thesis
  proof (cases "truthy v")
    case False
    then show ?thesis using Some by (simp add: getOrRenew_checked[OF assms(1-4)])
  next
    case True
    show ?thesis
    proof (cases "notAfterTime v")
      case None
      then show ?thesis using Some True by (simp add: getOrRenew_checked[OF assms(1-4)])
    next
      case (Some t)
      then have "\<not> parseIntEnv parseInt (RENEW_BEFORE_DAYS env) 30 \<le> daysUntil t now"
        using assms(5) \<open>loadCachedCert kv_get JSON_parse domain = Some v\<close> True by blast
      then show ?thesis using Some True \<open>loadCachedCert kv_get JSON_parse domain = Some v\<close>
        by (simp add: getOrRenew_checked[OF assms(1-4)])
    qed
  qed
qed

lemma toLowerCase_examples:
  "toLowerCase ''Example.COM'' = ''example.com''"
  "toLowerCase ''other.example'' = ''other.example''"
  by code_simp+

text \<open>
  Claim C3, as stated, fails: the configuration is checked before the cache is read, and an
  issuance can fail. With \<open>CF_API_TOKEN\<close> not set and a cached certificate that is 45 days
  from expiry (threshold 30), the call fails with \<open>Missing CF_API_TOKEN\<close>; it neither returns
  the cached certificate nor runs an issuance. With a complete configuration, no cached
  entry and an issuance that fails, the call fails with the error of the issuance; no
  result with \<open>cached = false\<close> is returned.
\<close>

theorem getOrRenew_config_counterexample:
  "cache_fresh example_kv example_parse (\<lambda>v. True) Some 1000
       (parseIntEnv example_parseInt (RENEW_BEFORE_DAYS env_without_token) 30) ''Example.COM''
   \<and> getOrRenewCertificateMaterial example_parseInt example_kv example_parse (\<lambda>v. True) Some 1000
       (\<lambda>t. ''iso'') example_obtained env_without_token [''LE''] [''zone''] ''Example.COM''
     = Inl MissingCfApiToken
   \<and> \<not> cache_fresh example_kv example_parse (\<lambda>v. True) Some 1000
       (parseIntEnv example_parseInt (RENEW_BEFORE_DAYS good_env) 30) ''other.example''
   \<and> getOrRenewCertificateMaterial example_parseInt example_kv example_parse (\<lambda>v. True) Some 1000
       (\<lambda>t. ''iso'') failed_obtained good_env [''LE''] [''zone''] ''other.example''
     = Inl (AllProvidersFailed [''LE: timeout''])"
  by (simp add: cache_fresh_def example_kv_def example_parse_def env_without_token_def
        good_env_def example_parseInt_def failed_obtained_def parseIntEnv_def
        toLowerCase_examples getOrRenewCertificateMaterial_def loadCachedCert_def certKey_def)

text \<open>
  Claim C3, amended. (1) When \<open>CF_API_TOKEN\<close> is not set or empty the call fails with
  \<open>Missing CF_API_TOKEN\<close>, and (2) with a token and an empty list of CA providers it fails
  with \<open>Missing/invalid CA_PROVIDERS_JSON\<close>, in both cases whatever the cache holds. (3) With
  a token, at least one CA provider and a zone map that is not empty, the call returns a
  result with \<open>cached = true\<close> exactly when an entry is stored for the lower-cased domain, it
  parses, its \<open>notAfterIso\<close> parses and \<open>floor((notAfter - now) / 86400000)\<close> is at least
  \<open>renewBeforeDays\<close>; the result is then that entry. In every other case the outcome is that
  of the issuance: its error, or the issued certificate with \<open>cached = false\<close>. (4)
  \<open>renewBeforeDays\<close> is \<^verbatim>\<open>Number.parseInt\<close> of \<open>RENEW_BEFORE_DAYS\<close> (of the empty text when it is
  not set), and 30 when that is not a finite number. Nothing is stated for an empty zone
  map.
\<close>

theorem getOrRenew_cached_iff_fresh:
  "(CF_API_TOKEN env = None \<or> CF_API_TOKEN env = Some []
      \<longrightarrow> getOrRenewCertificateMaterial parseInt kv_get JSON_parse truthy notAfterTime now
                 toISOString obtained env providers zoneMap domain = Inl MissingCfApiToken)
   \<and> (CF_API_TOKEN env \<noteq> None \<and> CF_API_TOKEN env \<noteq> Some [] \<and> providers = []
      \<longrightarrow> getOrRenewCertificateMaterial parseInt kv_get JSON_parse truthy notAfterTime now
                 toISOString obtained env providers zoneMap domain = Inl MissingCaProviders)
   \<and> (CF_API_TOKEN env \<noteq> None \<and> CF_API_TOKEN env \<noteq> Some [] \<and> providers \<noteq> [] \<and> zoneMap \<noteq> []
      \<longrightarrow> ((\<exists>m. getOrRenewCertificateMaterial parseInt kv_get JSON_parse truthy notAfterTime now
                 toISOString obtained env providers zoneMap domain = Inr m \<and> cached_flag m)
            \<longleftrightarrow> cache_fresh kv_get JSON_parse truthy notAfterTime now
                (parseIntEnv parseInt (RENEW_BEFORE_DAYS env) 30) domain)
          \<and> (cache_fresh kv_get JSON_parse truthy notAfterTime now
                (parseIntEnv parseInt (RENEW_BEFORE_DAYS env) 30) domain
              \<longrightarrow> (\<exists>raw v. kv_get (''cert:'' @ toLowerCase domain) = Some raw
                     \<and> JSON_parse raw = Some v
                     \<and> getOrRenewCertificateMaterial parseInt kv_get JSON_parse truthy notAfterTime now
                 toISOString obtained env providers zoneMap domain = Inr (FromCache v)))
          \<and> (\<not> cache_fresh kv_get JSON_parse truthy notAfterTime now
                (parseIntEnv parseInt (RENEW_BEFORE_DAYS env) 30) domain
              \<longrightarrow> getOrRenewCertificateMaterial parseInt kv_get JSON_parse truthy notAfterTime now
                 toISOString obtained env providers zoneMap domain
                  = issue_outcome toISOString now obtained domain
                \<and> (\<forall>m. issue_outcome toISOString now obtained domain = Inr m
                       \<longrightarrow> \<not> cached_flag (m :: 'v material))))
   \<and> (parseInt (case RENEW_BEFORE_DAYS env of None \<Rightarrow> [] | Some s \<Rightarrow> s) = None
      \<longrightarrow> parseIntEnv parseInt (RENEW_BEFORE_DAYS env) 30 = 30)
   \<and> (\<forall>n. parseInt (case RENEW_BEFORE_DAYS env of None \<Rightarrow> [] | Some s \<Rightarrow> s) = Some n
      \<longrightarrow> parseIntEnv parseInt (RENEW_BEFORE_DAYS env) 30 = n)"
proof -
  let ?R = "getOrRenewCertificateMaterial parseInt kv_get JSON_parse truthy notAfterTime now
                 toISOString obtained env providers zoneMap domain"
  let ?thr = "parseIntEnv parseInt (RENEW_BEFORE_DAYS env) 30"
  let ?fresh = "cache_fresh kv_get JSON_parse truthy notAfterTime now ?thr domain"
  let ?hit = "\<exists>v t. loadCachedCert kv_get JSON_parse domain = Some v \<and> truthy v
              \<and> notAfterTime v = Some t \<and> ?thr \<le> daysUntil t now"
  let ?ok = "CF_API_TOKEN env \<noteq> None \<and> CF_API_TOKEN env \<noteq> Some [] \<and> providers \<noteq> [] \<and> zoneMap \<noteq> []"
  have hit: "?fresh \<longleftrightarrow> ?hit"
    by (rule cache_fresh_hit)
  have A: "\<exists>raw v. kv_get (''cert:'' @ toLowerCase domain) = Some raw \<and> JSON_parse raw = Some v
             \<and> ?R = Inr (FromCache v)" if ok: ?ok and "?fresh"
  proof -
    from that(2) hit have ?hit by (rule iffD1[rotated])
    then obtain v t where vt: "loadCachedCert kv_get JSON_parse domain = Some v" "truthy v"
        "notAfterTime v = Some t" "?thr \<le> daysUntil t now"
      by (elim exE conjE)
    from ok have c: "CF_API_TOKEN env \<noteq> None" "CF_API_TOKEN env \<noteq> Some []" "providers \<noteq> []"
      "zoneMap \<noteq> []" by simp_all
    have r: "?R = Inr (FromCache v)"
      using c vt by (rule getOrRenew_hit)
    from vt(1) obtain raw where raw: "kv_get (''cert:'' @ toLowerCase domain) = Some raw"
      "JSON_parse raw = Some v"
      unfolding loadCachedCert_Some by (elim exE conjE)
    show ?thesis using raw r by (intro exI[of _ raw] exI[of _ v] conjI)
  qed
  have A': "\<exists>m. ?R = Inr m \<and> cached_flag m" if ok: ?ok and f: "?fresh"
  proof -
    from A[OF ok f] obtain v where r: "?R = Inr (FromCache v)" by (elim exE conjE)
    have "cached_flag (FromCache v)" by (simp add: cached_flag_def)
    with r show ?thesis by (intro exI[of _ "FromCache v"] conjI)
  qed
  have B: "?R = issue_outcome toISOString now obtained domain" if ok: ?ok and "\<not> ?fresh"
  proof -
    have "\<not> ?hit"
    proof
      assume ?hit
      with hit have ?fresh by (rule iffD2)
      with that(2) show False by (rule notE)
    qed
    moreover from ok have c: "CF_API_TOKEN env \<noteq> None" "CF_API_TOKEN env \<noteq> Some []"
      "providers \<noteq> []" "zoneMap \<noteq> []" by simp_all
    ultimately show ?thesis using getOrRenew_miss[OF c] by simp
  qed
  have C: "?fresh" if ok: ?ok and "\<exists>m. ?R = Inr m \<and> cached_flag m"
  proof (rule ccontr)
    assume n: "\<not> ?fresh"
    from that(2) obtain m where m: "?R = Inr m" "cached_flag m" by (elim exE conjE)
    from B[OF ok n] m(1) have "issue_outcome toISOString now obtained domain = Inr m"
      by (rule subst)
    then have "\<not> cached_flag m" by (rule issue_outcome_not_cached)
    with m(2) show False by simp
  qed
  have N: "\<not> cached_flag (m :: 'v material)"
    if "issue_outcome toISOString now obtained domain = Inr m" for m
    using that by (rule issue_outcome_not_cached)
  have P1: "CF_API_TOKEN env = None \<or> CF_API_TOKEN env = Some [] \<longrightarrow> ?R = Inl MissingCfApiToken"
    by (intro impI) (rule getOrRenew_no_token)
  have P2: "CF_API_TOKEN env \<noteq> None \<and> CF_API_TOKEN env \<noteq> Some [] \<and> providers = []
      \<longrightarrow> ?R = Inl MissingCaProviders"
    by (intro impI, elim conjE) (rule getOrRenew_no_providers)
  have P3: "?ok \<longrightarrow> ((\<exists>m. ?R = Inr m \<and> cached_flag m) \<longleftrightarrow> ?fresh)
          \<and> (?fresh \<longrightarrow> (\<exists>raw v. kv_get (''cert:'' @ toLowerCase domain) = Some raw
                     \<and> JSON_parse raw = Some v \<and> ?R = Inr (FromCache v)))
          \<and> (\<not> ?fresh \<longrightarrow> ?R = issue_outcome toISOString now obtained domain
                \<and> (\<forall>m. issue_outcome toISOString now obtained domain = Inr m
                       \<longrightarrow> \<not> cached_flag (m :: 'v material)))"
  proof (intro impI conjI allI)
    assume ok: ?ok
    show "(\<exists>m. ?R = Inr m \<and> cached_flag m) \<longleftrightarrow> ?fresh"
      using C[OF ok] A'[OF ok] by (rule iffI)
  next
    assume ok: ?ok and f: ?fresh
    show "\<exists>raw v. kv_get (''cert:'' @ toLowerCase domain) = Some raw
                     \<and> JSON_parse raw = Some v \<and> ?R = Inr (FromCache v)"
      using ok f by (rule A)
  next
    assume ok: ?ok and n: "\<not> ?fresh"
    show "?R = issue_outcome toISOString now obtained domain" using ok n by (rule B)
  next
    fix m :: "'v material"
    assume "issue_outcome toISOString now obtained domain = Inr m"
    then show "\<not> cached_flag m" by (rule N)
  qed
  note P4 = parseIntEnv_cases[of parseInt "RENEW_BEFORE_DAYS env" 30]
  show ?thesis using P1 P2 P3 P4 by (intro conjI) (elim conjE, assumption)+
qed

text \<open>A cached certificate 45 days from expiry is returned under the default threshold of
  30 days and renewed under a threshold of 60 days; a domain without an entry is issued;
  and the two configuration errors.\<close>

theorem getOrRenew_cached_iff_fresh_witness:
  "getOrRenewCertificateMaterial example_parseInt example_kv example_parse (\<lambda>v. True) Some 1000
       (\<lambda>t. ''iso'') example_obtained good_env [''LE''] [''zone''] ''Example.COM''
     = Inr (FromCache 3888001000)
   \<and> getOrRenewCertificateMaterial example_parseInt example_kv example_parse (\<lambda>v. True) Some 1000
       (\<lambda>t. ''iso'') example_obtained good_env [''LE''] [''zone''] ''other.example''
     = Inr (Issued \<lparr>cc_domain = ''other.example'', cc_certPem = ''cert'', cc_keyPem = ''key'',
                    cc_notAfterIso = ''iso'', cc_provider = ''LE'', cc_updatedAtIso = ''iso''\<rparr>)
   \<and> getOrRenewCertificateMaterial example_parseInt example_kv example_parse (\<lambda>v. True) Some 1000
       (\<lambda>t. ''iso'') example_obtained eager_env [''LE''] [''zone''] ''Example.COM''
     = Inr (Issued \<lparr>cc_domain = ''Example.COM'', cc_certPem = ''cert'', cc_keyPem = ''key'',
                    cc_notAfterIso = ''iso'', cc_provider = ''LE'', cc_updatedAtIso = ''iso''\<rparr>)
   \<and> getOrRenewCertificateMaterial example_parseInt example_kv example_parse (\<lambda>v. True) Some 1000
       (\<lambda>t. ''iso'') example_obtained env_without_token [''LE''] [''zone''] ''Example.COM''
     = Inl MissingCfApiToken
   \<and> getOrRenewCertificateMaterial example_parseInt example_kv example_parse (\<lambda>v. True) Some 1000
       (\<lambda>t. ''iso'') example_obtained good_env ([] :: string list) [''zone''] ''Example.COM''
     = Inl MissingCaProviders"
proof -
  note lc = toLowerCase_examples
  have tok: "CF_API_TOKEN good_env \<noteq> None \<and> CF_API_TOKEN good_env \<noteq> Some []"
      "CF_API_TOKEN eager_env \<noteq> None \<and> CF_API_TOKEN eager_env \<noteq> Some []"
      "CF_API_TOKEN env_without_token = None"
    by (simp_all add: good_env_def eager_env_def env_without_token_def)
  have thr: "parseIntEnv example_parseInt (RENEW_BEFORE_DAYS good_env) 30 = 30"
      "parseIntEnv example_parseInt (RENEW_BEFORE_DAYS eager_env) 30 = 60"
    by (simp_all add: parseIntEnv_def example_parseInt_def good_env_def eager_env_def)
  have f1: "cache_fresh example_kv example_parse (\<lambda>v. True) Some 1000
       (parseIntEnv example_parseInt (RENEW_BEFORE_DAYS good_env) 30) ''Example.COM''"
    unfolding thr by (simp add: cache_fresh_def example_kv_def example_parse_def lc)
  have n2: "\<not> cache_fresh example_kv example_parse (\<lambda>v. True) Some 1000
       (parseIntEnv example_parseInt (RENEW_BEFORE_DAYS good_env) 30) ''other.example''"
    unfolding thr by (simp add: cache_fresh_def example_kv_def lc)
  have n3: "\<not> cache_fresh example_kv example_parse (\<lambda>v. True) Some 1000
       (parseIntEnv example_parseInt (RENEW_BEFORE_DAYS eager_env) 30) ''Example.COM''"
    unfolding thr by (simp add: cache_fresh_def example_kv_def example_parse_def lc)
  have io: "issue_outcome (\<lambda>t. ''iso'') 1000 example_obtained ''other.example'' = Inr (Issued \<lparr>cc_domain = ''other.example'', cc_certPem = ''cert'', cc_keyPem = ''key'',
                    cc_notAfterIso = ''iso'', cc_provider = ''LE'', cc_updatedAtIso = ''iso''\<rparr>)"
      "issue_outcome (\<lambda>t. ''iso'') 1000 example_obtained ''Example.COM'' = Inr (Issued \<lparr>cc_domain = ''Example.COM'', cc_certPem = ''cert'', cc_keyPem = ''key'',
                    cc_notAfterIso = ''iso'', cc_provider = ''LE'', cc_updatedAtIso = ''iso''\<rparr>)"
    by (simp_all add: issue_outcome_def example_obtained_def)
  have kv: "example_kv (''cert:'' @ toLowerCase ''Example.COM'') = Some ''45d''"
    by (simp add: example_kv_def lc)
  have ps: "example_parse ''45d'' = Some 3888001000"
    by (simp add: example_parse_def)
  note t1 = getOrRenew_cached_iff_fresh[where parseInt=example_parseInt and env=good_env and providers="[''LE'']"
            and zoneMap="[''zone'']" and JSON_parse=example_parse and kv_get=example_kv
            and truthy="\<lambda>v. True" and notAfterTime=Some and now=1000 and toISOString="\<lambda>t. ''iso''"
            and obtained=example_obtained and domain="''Example.COM''"]
  note t2 = getOrRenew_cached_iff_fresh[where parseInt=example_parseInt and env=good_env and providers="[''LE'']"
            and zoneMap="[''zone'']" and JSON_parse=example_parse and kv_get=example_kv
            and truthy="\<lambda>v. True" and notAfterTime=Some and now=1000 and toISOString="\<lambda>t. ''iso''"
            and obtained=example_obtained and domain="''other.example''"]
  note t3 = getOrRenew_cached_iff_fresh[where parseInt=example_parseInt and env=eager_env and providers="[''LE'']"
            and zoneMap="[''zone'']" and JSON_parse=example_parse and kv_get=example_kv
            and truthy="\<lambda>v. True" and notAfterTime=Some and now=1000 and toISOString="\<lambda>t. ''iso''"
            and obtained=example_obtained and domain="''Example.COM''"]
  note t4 = getOrRenew_cached_iff_fresh[where parseInt=example_parseInt and env=env_without_token and providers="[''LE'']"
            and zoneMap="[''zone'']" and JSON_parse=example_parse and kv_get=example_kv
            and truthy="\<lambda>v. True" and notAfterTime=Some and now=1000 and toISOString="\<lambda>t. ''iso''"
            and obtained=example_obtained and domain="''Example.COM''"]
  note t5 = getOrRenew_cached_iff_fresh[where parseInt=example_parseInt and env=good_env and providers="[] :: string list"
            and zoneMap="[''zone'']" and JSON_parse=example_parse and kv_get=example_kv
            and truthy="\<lambda>v. True" and notAfterTime=Some and now=1000 and toISOString="\<lambda>t. ''iso''"
            and obtained=example_obtained and domain="''Example.COM''"]
  have ok1: "CF_API_TOKEN good_env \<noteq> None \<and> CF_API_TOKEN good_env \<noteq> Some [] \<and> [''LE''] \<noteq> []
      \<and> [''zone''] \<noteq> []"
    by (simp add: good_env_def)
  have ok3: "CF_API_TOKEN eager_env \<noteq> None \<and> CF_API_TOKEN eager_env \<noteq> Some [] \<and> [''LE''] \<noteq> []
      \<and> [''zone''] \<noteq> []"
    by (simp add: eager_env_def)
  have no4: "CF_API_TOKEN env_without_token = None \<or> CF_API_TOKEN env_without_token = Some []"
    by (simp add: env_without_token_def)
  have no5: "CF_API_TOKEN good_env \<noteq> None \<and> CF_API_TOKEN good_env \<noteq> Some []
      \<and> ([] :: string list) = []"
    by (simp add: good_env_def)
  note c1 = mp[OF t1[THEN conjunct2, THEN conjunct2, THEN conjunct1] ok1]
  note c2 = mp[OF t2[THEN conjunct2, THEN conjunct2, THEN conjunct1] ok1]
  note c3 = mp[OF t3[THEN conjunct2, THEN conjunct2, THEN conjunct1] ok3]
  have 1: "getOrRenewCertificateMaterial example_parseInt example_kv example_parse (\<lambda>v. True) Some 1000
       (\<lambda>t. ''iso'') example_obtained good_env [''LE''] [''zone''] ''Example.COM''
     = Inr (FromCache 3888001000)"
  proof -
    from mp[OF c1[THEN conjunct2, THEN conjunct1] f1] obtain raw v where
      r: "example_kv (''cert:'' @ toLowerCase ''Example.COM'') = Some raw"
      "example_parse raw = Some v"
      "getOrRenewCertificateMaterial example_parseInt example_kv example_parse (\<lambda>v. True) Some 1000
       (\<lambda>t. ''iso'') example_obtained good_env [''LE''] [''zone''] ''Example.COM'' = Inr (FromCache v)"
      by (elim exE conjE)
    from r(1) kv have "raw = ''45d''" by simp
    with r(2) ps have "v = 3888001000" by simp
    with r(3) show ?thesis by simp
  qed
  have 2: "getOrRenewCertificateMaterial example_parseInt example_kv example_parse (\<lambda>v. True) Some 1000
       (\<lambda>t. ''iso'') example_obtained good_env [''LE''] [''zone''] ''other.example''
     = Inr (Issued \<lparr>cc_domain = ''other.example'', cc_certPem = ''cert'', cc_keyPem = ''key'',
                    cc_notAfterIso = ''iso'', cc_provider = ''LE'', cc_updatedAtIso = ''iso''\<rparr>)"
  proof -
    have "getOrRenewCertificateMaterial example_parseInt example_kv example_parse (\<lambda>v. True) Some 1000
       (\<lambda>t. ''iso'') example_obtained good_env [''LE''] [''zone''] ''other.example''
      = issue_outcome (\<lambda>t. ''iso'') 1000 example_obtained ''other.example''"
      using mp[OF c2[THEN conjunct2, THEN conjunct2] n2] by (rule conjunct1)
    then show ?thesis by (simp only: io(1))
  qed
  have 3: "getOrRenewCertificateMaterial example_parseInt example_kv example_parse (\<lambda>v. True) Some 1000
       (\<lambda>t. ''iso'') example_obtained eager_env [''LE''] [''zone''] ''Example.COM''
     = Inr (Issued \<lparr>cc_domain = ''Example.COM'', cc_certPem = ''cert'', cc_keyPem = ''key'',
                    cc_notAfterIso = ''iso'', cc_provider = ''LE'', cc_updatedAtIso = ''iso''\<rparr>)"
  proof -
    have "getOrRenewCertificateMaterial example_parseInt example_kv example_parse (\<lambda>v. True) Some 1000
       (\<lambda>t. ''iso'') example_obtained eager_env [''LE''] [''zone''] ''Example.COM''
      = issue_outcome (\<lambda>t. ''iso'') 1000 example_obtained ''Example.COM''"
      using mp[OF c3[THEN conjunct2, THEN conjunct2] n3] by (rule conjunct1)
    then show ?thesis by (simp only: io(2))
  qed
  have 4: "getOrRenewCertificateMaterial example_parseInt example_kv example_parse (\<lambda>v. True) Some 1000
       (\<lambda>t. ''iso'') example_obtained env_without_token [''LE''] [''zone''] ''Example.COM''
     = Inl MissingCfApiToken"
    using t4[THEN conjunct1] no4 by (rule mp)
  have 5: "getOrRenewCertificateMaterial example_parseInt example_kv example_parse (\<lambda>v. True) Some 1000
       (\<lambda>t. ''iso'') example_obtained good_env ([] :: string list) [''zone''] ''Example.COM''
     = Inl MissingCaProviders"
    using t5[THEN conjunct2, THEN conjunct1] no5 by (rule mp)
  show ?thesis using 1 2 3 4 5 by (intro conjI)
qed

end
